theory Spec2Isabelle
  imports Main
begin

section \<open>Byte strings\<close>

text \<open>
  Go strings are byte sequences and the consumer's texts reach the wire as UTF-8, so a text is a
  \<^typ>\<open>string\<close> of bytes throughout.
\<close>

definition startsWith :: "string \<Rightarrow> string \<Rightarrow> bool" where
  "startsWith s p = (take (length p) s = p)"

fun Contains :: "string \<Rightarrow> string \<Rightarrow> bool" where
  "Contains [] sub = (sub = [])"
| "Contains (c # cs) sub = (startsWith (c # cs) sub \<or> Contains cs sub)"

definition digit :: "nat \<Rightarrow> char" where
  "digit d = char_of (48 + d)"

fun decimal :: "nat \<Rightarrow> string" where
  "decimal n = (if n < 10 then [digit n] else decimal (n div 10) @ [digit (n mod 10)])"

declare decimal.simps [simp del]

text \<open>\<^verbatim>\<open>%d\<close> of \<^verbatim>\<open>fmt.Sprintf\<close>.\<close>

definition Sprintf_d :: "int \<Rightarrow> string" where
  "Sprintf_d i = (if i < 0 then CHR ''-'' # decimal (nat (- i)) else decimal (nat i))"

text \<open>
  \<^verbatim>\<open>strings.ToLower\<close> and \<^verbatim>\<open>strings.Fields\<close> on ASCII: the letters \<^verbatim>\<open>A\<close> to
  \<^verbatim>\<open>Z\<close> are lowered, and the white space is the six ASCII space bytes. (Go also lowers and
  splits at non-ASCII code points, which are several bytes here.)
\<close>

definition toLower :: "char \<Rightarrow> char" where
  "toLower c = (let n = (of_char c :: nat) in if 65 \<le> n \<and> n \<le> 90 then char_of (n + 32) else c)"

definition ToLower :: "string \<Rightarrow> string" where
  "ToLower s = map toLower s"

definition isSpace :: "char \<Rightarrow> bool" where
  "isSpace c = (c = CHR '' '' \<or> c = CHR 0x09 \<or> c = CHR 0x0A \<or> c = CHR 0x0B \<or> c = CHR 0x0C \<or> c = CHR 0x0D)"

fun fieldsFrom :: "string \<Rightarrow> string \<Rightarrow> string list" where
  "fieldsFrom cur [] = (if cur = [] then [] else [cur])"
| "fieldsFrom cur (c # cs) =
     (if isSpace c then (if cur = [] then fieldsFrom [] cs else cur # fieldsFrom [] cs)
      else fieldsFrom (cur @ [c]) cs)"

definition Fields :: "string \<Rightarrow> string list" where
  "Fields s = fieldsFrom [] s"

section \<open>Percent-encoding\<close>

definition ishex :: "char \<Rightarrow> bool" where
  "ishex c = (let n = (of_char c :: nat) in
     (48 \<le> n \<and> n \<le> 57) \<or> (97 \<le> n \<and> n \<le> 102) \<or> (65 \<le> n \<and> n \<le> 70))"

definition unhex :: "char \<Rightarrow> nat" where
  "unhex c = (let n = (of_char c :: nat) in
     if 48 \<le> n \<and> n \<le> 57 then n - 48
     else if 97 \<le> n \<and> n \<le> 102 then n - 97 + 10
     else if 65 \<le> n \<and> n \<le> 70 then n - 65 + 10
     else 0)"

definition unhexByte :: "char \<Rightarrow> char \<Rightarrow> char" where
  "unhexByte h1 h2 = char_of (16 * unhex h1 + unhex h2)"

definition upperhex :: "nat \<Rightarrow> char" where
  "upperhex d = (if d < 10 then char_of (48 + d) else char_of (55 + d))"

text \<open>\<^verbatim>\<open>%XX\<close> for one byte, with upper-case digits.\<close>

definition percentEncode :: "char \<Rightarrow> string" where
  "percentEncode c = (let n = (of_char c :: nat) in [CHR ''%'', upperhex (n div 16), upperhex (n mod 16)])"

text \<open>
  Go's \<^verbatim>\<open>url.QueryUnescape\<close>: every \<^verbatim>\<open>%\<close> must be followed by two hex digits, otherwise
  the result is an \<^verbatim>\<open>EscapeError\<close> carrying the offending piece (\<open>Inl\<close>); \<^verbatim>\<open>+\<close> becomes a
  space.
\<close>

fun QueryUnescape :: "string \<Rightarrow> string + string" where
  "QueryUnescape [] = Inr []"
| "QueryUnescape (c # cs) =
     (if c = CHR ''%'' then
        (case cs of
           h1 # h2 # rest \<Rightarrow>
             if ishex h1 \<and> ishex h2 then
               (case QueryUnescape rest of Inl e \<Rightarrow> Inl e | Inr t \<Rightarrow> Inr (unhexByte h1 h2 # t))
             else Inl (take 3 (c # cs))
         | _ \<Rightarrow> Inl (c # cs))
      else if c = CHR ''+'' then
        (case QueryUnescape cs of Inl e \<Rightarrow> Inl e | Inr t \<Rightarrow> Inr (CHR '' '' # t))
      else
        (case QueryUnescape cs of Inl e \<Rightarrow> Inl e | Inr t \<Rightarrow> Inr (c # t)))"

text \<open>
  JavaScript's \<^verbatim>\<open>encodeURIComponent\<close> on the UTF-8 bytes of a well-formed text: letters, digits
  and \<^verbatim>\<open>- _ . ! ~ * ' ( )\<close> stay, every other byte is escaped.
\<close>

definition isAlnum :: "char \<Rightarrow> bool" where
  "isAlnum c = (let n = (of_char c :: nat) in
     (48 \<le> n \<and> n \<le> 57) \<or> (65 \<le> n \<and> n \<le> 90) \<or> (97 \<le> n \<and> n \<le> 122))"

definition uriUnreserved :: "char \<Rightarrow> bool" where
  "uriUnreserved c = (isAlnum c \<or> c \<in> set (''-_.!~*()'' @ [CHR 0x27]))"

definition encodeURIComponent :: "string \<Rightarrow> string" where
  "encodeURIComponent s = concat (map (\<lambda>c. if uriUnreserved c then [c] else percentEncode c) s)"

text \<open>
  The value of a query parameter as \<^verbatim>\<open>URLSearchParams\<close> writes it into the URL
  (\<^verbatim>\<open>application/x-www-form-urlencoded\<close>): letters, digits and \<^verbatim>\<open>* - . _\<close> stay, a space
  becomes \<^verbatim>\<open>+\<close>, every other byte is escaped.
\<close>

definition formByte :: "char \<Rightarrow> string" where
  "formByte c = (if isAlnum c \<or> c \<in> set ''*-._'' then [c]
                 else if c = CHR '' '' then ''+''
                 else percentEncode c)"

definition formSerialize :: "string \<Rightarrow> string" where
  "formSerialize s = concat (map formByte s)"

text \<open>
  The decoding of a query argument by the HTTP server under \<^verbatim>\<open>c.Query\<close>: \<^verbatim>\<open>+\<close> becomes a
  space, \<^verbatim>\<open>%XX\<close> the byte, and a \<^verbatim>\<open>%\<close> that is not followed by two hex digits stays.
\<close>

fun queryArgDecode :: "string \<Rightarrow> string" where
  "queryArgDecode [] = []"
| "queryArgDecode (c # cs) =
     (if c = CHR ''%'' then
        (case cs of
           h1 # h2 # rest \<Rightarrow>
             if ishex h1 \<and> ishex h2 then unhexByte h1 h2 # queryArgDecode rest
             else c # queryArgDecode cs
         | _ \<Rightarrow> c # cs)
      else if c = CHR ''+'' then CHR '' '' # queryArgDecode cs
      else c # queryArgDecode cs)"

section \<open>Stream producer: \<^verbatim>\<open>backend/internal/handlers/chat.go\<close>\<close>

subsection \<open>Duplicate suppression\<close>

text \<open>Instants and durations are nanoseconds, as in \<^verbatim>\<open>time.Duration\<close>.\<close>

type_synonym time = int

definition Second :: int where
  "Second = 1000000000"

record ChatHandler =
  recentMessages :: "string \<rightharpoonup> time"


text \<open>One tick of the cleanup goroutine at instant \<open>now\<close>.\<close>

definition cleanupOldMessages :: "time \<Rightarrow> ChatHandler \<Rightarrow> ChatHandler" where
  "cleanupOldMessages now h =
     (let cutoff = now - 10 * Second in
      h\<lparr>recentMessages := (\<lambda>message. case recentMessages h message of
                                None \<Rightarrow> None
                              | Some timestamp \<Rightarrow> if timestamp < cutoff then None else Some timestamp)\<rparr>)"

definition isRecentMessage :: "ChatHandler \<Rightarrow> time \<Rightarrow> string \<Rightarrow> bool" where
  "isRecentMessage h now message =
     (case recentMessages h message of
        Some lastTime \<Rightarrow> now - lastTime < 10 * Second
      | None \<Rightarrow> False)"


subsection \<open>Events and the buffered writer\<close>

datatype Event =
    StreamingStartEvent string
  | TextMessageEvent string bool
  | StreamingEndEvent
  | ErrorEvent string

text \<open>
  The writer holds the events written so far and the faults still to come: the head of
  \<open>faults\<close> tells whether the next \<^verbatim>\<open>writeEvent\<close> fails, and an empty list is a connection
  on which every write succeeds.
\<close>

record Writer =
  written :: "Event list"
  faults :: "bool list"

text \<open>The first component is \<^verbatim>\<open>err != nil\<close>.\<close>

definition writeEvent :: "Writer \<Rightarrow> Event \<Rightarrow> bool \<times> Writer" where
  "writeEvent w event =
     (case faults w of
        [] \<Rightarrow> (False, w\<lparr>written := written w @ [event]\<rparr>)
      | f # fs \<Rightarrow> if f then (True, w\<lparr>faults := fs\<rparr>)
                  else (False, w\<lparr>written := written w @ [event], faults := fs\<rparr>))"

subsection \<open>Response generation\<close>

definition generateResponse :: "string \<Rightarrow> string" where
  "generateResponse message0 =
     (let message = ToLower message0 in
      if Contains message ''hiking'' \<or> Contains message ''trail'' then
        ''I found some great hiking trails in your area! Here are a few popular options: Bear Mountain Trail (moderate difficulty, 3.2 miles), Sunset Ridge Loop (easy, 1.8 miles), and Eagle Peak Summit (challenging, 5.7 miles). Would you like more details about any of these trails?''
      else if Contains message ''cycling'' \<or> Contains message ''bike'' then
        ''There are several excellent cycling routes nearby! I recommend the Riverside Path (easy, 8 miles of paved trail), Mountain Loop Road (moderate, 12 miles with scenic views), and the Advanced Hill Circuit (challenging, 15 miles with steep climbs). Which type of cycling experience are you looking for?''
      else if Contains message ''restaurant'' \<or> Contains message ''food'' \<or> Contains message ''eat'' then
        ''Here are some great local restaurants: The Mountain View Caf'' @ [CHR 0xC3, CHR 0xA9] @
        '' (farm-to-table, outdoor seating), Trailhead Grill (burgers and craft beer), and Summit Bistro (fine dining with valley views). What type of cuisine are you in the mood for?''
      else
        ''Thanks for your message! I'' @ [CHR 0x27] @ ''m here to help you discover outdoor activities, restaurants, and local attractions. You can ask me about hiking trails, cycling routes, places to eat, or any other activities you'' @ [CHR 0x27] @ ''re interested in. What would you like to explore today?'')"

subsection \<open>The stream writer\<close>

text \<open>
  The word loop of \<^verbatim>\<open>StreamChat\<close>: \<open>n\<close> is \<^verbatim>\<open>len(words)\<close> and \<open>i\<close> the index of the
  head of the remaining words. A failed write leaves the loop.
\<close>

fun wordLoop :: "nat \<Rightarrow> nat \<Rightarrow> string list \<Rightarrow> Writer \<Rightarrow> Writer" where
  "wordLoop n i [] w = w"
| "wordLoop n i (word # rest) w =
     (let content = (if int i < int n - 1 then word @ '' '' else word) in
      case writeEvent w (TextMessageEvent content (int i = int n - 1)) of
        (True, w') \<Rightarrow> w'
      | (False, w') \<Rightarrow> wordLoop n (Suc i) rest w')"

definition streamWriter :: "time \<Rightarrow> string \<Rightarrow> Writer \<Rightarrow> Writer" where
  "streamWriter now decodedMessage w =
     (let messageID = ''msg-'' @ Sprintf_d now in
      case writeEvent w (StreamingStartEvent messageID) of
        (True, w1) \<Rightarrow> w1
      | (False, w1) \<Rightarrow>
          (let response = generateResponse decodedMessage;
               words = Fields response;
               w2 = wordLoop (length words) 0 words w1
           in snd (writeEvent w2 StreamingEndEvent)))"


subsection \<open>The request handler\<close>





definition decodeMessage :: "string \<Rightarrow> string" where
  "decodeMessage message = (case QueryUnescape message of Inl err \<Rightarrow> message | Inr decodedMessage \<Rightarrow> decodedMessage)"



section \<open>Stream consumer: \<^verbatim>\<open>frontend/src/hooks/agui/useAGUIChat.ts\<close>\<close>

subsection \<open>Messages and the chat store\<close>

text \<open>
  The consumer never looks inside an activity or an image; each is carried by its id. A
  timestamp is the instant in milliseconds that the source renders with \<^verbatim>\<open>toISOString\<close>.
\<close>

type_synonym Activity = string
type_synonym ActivityImage = string

datatype MessageType = type_user | type_assistant | type_system | type_error

record MessageMetadata =
  totalCount :: "nat option"
  searchQuery :: "string option"
  activityId :: "string option"

record Message =
  id_m :: string
  type_m :: MessageType
  content :: string
  timestamp :: nat
  isStreaming_m :: "bool option"
  activities_m :: "Activity list option"
  images :: "ActivityImage list option"
  metadata :: "MessageMetadata option"

text \<open>\<^verbatim>\<open>Partial<Message>\<close>: a field is \<open>Some\<close> when the key is present.\<close>

record MessageUpdates =
  u_id :: "string option"
  u_type :: "MessageType option"
  u_content :: "string option"
  u_timestamp :: "nat option"
  u_isStreaming :: "bool option"
  u_activities :: "Activity list option"
  u_images :: "ActivityImage list option"
  u_metadata :: "MessageMetadata option"

definition noUpdates :: MessageUpdates where
  "noUpdates = \<lparr>u_id = None, u_type = None, u_content = None, u_timestamp = None,
     u_isStreaming = None, u_activities = None, u_images = None, u_metadata = None\<rparr>"

text \<open>The spread \<^verbatim>\<open>{ ...msg, ...updates }\<close>.\<close>

definition spread :: "Message \<Rightarrow> MessageUpdates \<Rightarrow> Message" where
  "spread msg updates =
     \<lparr>id_m = (case u_id updates of Some v \<Rightarrow> v | None \<Rightarrow> id_m msg),
      type_m = (case u_type updates of Some v \<Rightarrow> v | None \<Rightarrow> type_m msg),
      content = (case u_content updates of Some v \<Rightarrow> v | None \<Rightarrow> content msg),
      timestamp = (case u_timestamp updates of Some v \<Rightarrow> v | None \<Rightarrow> timestamp msg),
      isStreaming_m = (case u_isStreaming updates of Some v \<Rightarrow> Some v | None \<Rightarrow> isStreaming_m msg),
      activities_m = (case u_activities updates of Some v \<Rightarrow> Some v | None \<Rightarrow> activities_m msg),
      images = (case u_images updates of Some v \<Rightarrow> Some v | None \<Rightarrow> images msg),
      metadata = (case u_metadata updates of Some v \<Rightarrow> Some v | None \<Rightarrow> metadata msg)\<rparr>"

record ChatState =
  messages :: "Message list"
  isStreaming :: bool
  activities :: "Activity list"
  currentActivity :: "Activity option"
  error :: "string option"

definition initialChatState :: ChatState where
  "initialChatState = \<lparr>messages = [], isStreaming = False, activities = [],
     currentActivity = None, error = None\<rparr>"

definition addMessage :: "Message \<Rightarrow> ChatState \<Rightarrow> ChatState" where
  "addMessage message state = state\<lparr>messages := messages state @ [message]\<rparr>"

definition updateMessage :: "string \<Rightarrow> MessageUpdates \<Rightarrow> ChatState \<Rightarrow> ChatState" where
  "updateMessage i updates state =
     state\<lparr>messages := map (\<lambda>msg. if id_m msg = i then spread msg updates else msg) (messages state)\<rparr>"

definition setStreaming :: "bool \<Rightarrow> ChatState \<Rightarrow> ChatState" where
  "setStreaming b state = state\<lparr>isStreaming := b\<rparr>"

definition setActivities :: "Activity list \<Rightarrow> ChatState \<Rightarrow> ChatState" where
  "setActivities found state = state\<lparr>activities := found\<rparr>"

definition setError :: "string option \<Rightarrow> ChatState \<Rightarrow> ChatState" where
  "setError e state = state\<lparr>error := e\<rparr>"

subsection \<open>Events as the consumer sees them\<close>

text \<open>
  An event object after the unchecked cast of \<^verbatim>\<open>handleAGUIEvent\<close>, by its \<^verbatim>\<open>type\<close> tag;
  optional fields are options, and \<open>OTHER_TYPE\<close> is any value with another tag or none.
\<close>

datatype AGUIEvent =
    STREAMING_START "string option"
  | TEXT_MESSAGE_CONTENT string "bool option"
  | ACTIVITIES_FOUND "Activity list" nat "string option"
  | IMAGES_LOADED string "ActivityImage list"
  | TOOL_EXECUTION_START string
  | TOOL_EXECUTION_END string
  | STREAMING_END
  | ERROR string
  | OTHER_TYPE

text \<open>
  What \<^verbatim>\<open>JSON.parse\<close> returns: an object, an array, a falsy primitive (\<^verbatim>\<open>null\<close>,
  \<^verbatim>\<open>false\<close>, \<^verbatim>\<open>0\<close>, the empty string) or another primitive.
\<close>

datatype js_value = JSObject AGUIEvent | JSArray "js_value list" | JSFalsy | JSTruthy

subsection \<open>The hook's state and its surroundings\<close>

datatype ReadyState = CONNECTING | OPEN | CLOSED

text \<open>
  An \<^verbatim>\<open>EventSource\<close> object: the endpoint, the value given to
  \<^verbatim>\<open>url.searchParams.set('message', _)\<close>, and its ready state.
\<close>

record EventSource =
  endpoint_es :: string
  message_param :: string
  readyState :: ReadyState

text \<open>
  What the hook is given: its \<^verbatim>\<open>endpoint\<close> prop; the message of the exception that
  \<^verbatim>\<open>new URL(endpoint)\<close> and \<^verbatim>\<open>new EventSource(url)\<close> throw, when they throw; and
  \<^verbatim>\<open>JSON.parse\<close>, which is \<open>None\<close> where it throws.
\<close>

record Env =
  endpoint :: string
  URL_throws :: "string option"
  EventSource_throws :: "string option"
  JSON_parse :: "string \<Rightarrow> js_value option"

text \<open>
  The state of one hook instance: the store, the \<^verbatim>\<open>useState\<close> cells, the refs, every
  \<^verbatim>\<open>EventSource\<close> the hook has constructed (a ref holds the index of one), and the calls made
  to the two callbacks. The second revision of the file adds \<open>connectionError\<close>,
  \<open>reconnectAttempts\<close>, \<open>isManuallyDisconnected\<close> and \<open>reconnectTimeoutRef\<close>.
\<close>

record Hook =
  store :: ChatState
  isConnected :: bool
  connectionError :: "string option"
  reconnectAttempts :: nat
  eventSourceRef :: "nat option"
  currentMessageRef :: string
  currentMessageIdRef :: string
  isManuallyDisconnected :: bool
  reconnectTimeoutRef :: "nat option"
  sources :: "EventSource list"
  onErrorCalls :: "string list"
  onToolExecutionCalls :: "(string \<times> bool) list"

definition initialHook :: Hook where
  "initialHook = \<lparr>store = initialChatState, isConnected = False, connectionError = None,
     reconnectAttempts = 0, eventSourceRef = None, currentMessageRef = [],
     currentMessageIdRef = [], isManuallyDisconnected = False, reconnectTimeoutRef = None,
     sources = [], onErrorCalls = [], onToolExecutionCalls = []\<rparr>"

text \<open>The file holds two revisions of the hook, told apart by this tag.\<close>

datatype Revision = V1 | V2

text \<open>\<^verbatim>\<open>eventSource.close()\<close> on the object at index \<open>i\<close>.\<close>

definition es_close :: "nat \<Rightarrow> EventSource list \<Rightarrow> EventSource list" where
  "es_close i srcs = (if i < length srcs then srcs[i := (srcs ! i)\<lparr>readyState := CLOSED\<rparr>] else srcs)"

text \<open>The combined error the second revision returns: \<^verbatim>\<open>error || connectionError\<close>.\<close>

definition combinedError :: "Hook \<Rightarrow> string option" where
  "combinedError h = (case error (store h) of
      Some e \<Rightarrow> if e \<noteq> [] then Some e else connectionError h
    | None \<Rightarrow> connectionError h)"

subsection \<open>Parsing and folding events\<close>

text \<open>
  \<^verbatim>\<open>parseAGUIEvent\<close>: \<open>None\<close> is \<^verbatim>\<open>null\<close> (the \<^verbatim>\<open>catch\<close> branch) or \<^verbatim>\<open>undefined\<close> (the
  first element of an empty array).
\<close>

definition parseAGUIEvent :: "(string \<Rightarrow> js_value option) \<Rightarrow> string \<Rightarrow> js_value option" where
  "parseAGUIEvent parse data =
     (if startsWith data ''['' then
        (case parse data of
           None \<Rightarrow> None
         | Some (JSArray (e # es)) \<Rightarrow> Some e
         | Some _ \<Rightarrow> None)
      else parse data)"

text \<open>
  The tail that the second revision adds to the \<^verbatim>\<open>STREAMING_END\<close> and \<^verbatim>\<open>ERROR\<close> cases.
\<close>

definition closeAfterTerminal :: "Hook \<Rightarrow> Hook" where
  "closeAfterTerminal h =
     (let h1 = h\<lparr>isManuallyDisconnected := True\<rparr> in
      case eventSourceRef h1 of
        None \<Rightarrow> h1
      | Some i \<Rightarrow> h1\<lparr>sources := es_close i (sources h1), eventSourceRef := None, isConnected := False\<rparr>)"

text \<open>\<^verbatim>\<open>handleAGUIEvent\<close>; \<open>now\<close> is \<^verbatim>\<open>Date.now()\<close>.\<close>

fun handleAGUIEvent :: "Revision \<Rightarrow> nat \<Rightarrow> AGUIEvent \<Rightarrow> Hook \<Rightarrow> Hook" where
  "handleAGUIEvent rv now (STREAMING_START messageId) h =
     (let current = (case messageId of
                       Some m \<Rightarrow> if m \<noteq> [] then m else ''msg-'' @ decimal now
                     | None \<Rightarrow> ''msg-'' @ decimal now);
          message = \<lparr>id_m = current, type_m = type_assistant, content = [], timestamp = now,
                     isStreaming_m = Some True, activities_m = None, images = None, metadata = None\<rparr>
      in h\<lparr>store := addMessage message (setStreaming True (store h)),
           currentMessageIdRef := current,
           currentMessageRef := []\<rparr>)"
| "handleAGUIEvent rv now (TEXT_MESSAGE_CONTENT text isComplete) h =
     (let current = currentMessageRef h @ text in
      h\<lparr>currentMessageRef := current,
        store := updateMessage (currentMessageIdRef h)
                   (noUpdates\<lparr>u_content := Some current, u_isStreaming := Some (isComplete \<noteq> Some True)\<rparr>)
                   (store h)\<rparr>)"
| "handleAGUIEvent rv now (ACTIVITIES_FOUND found totalCount0 query) h =
     h\<lparr>store := updateMessage (currentMessageIdRef h)
                  (noUpdates\<lparr>u_activities := Some found,
                     u_metadata := Some \<lparr>totalCount = Some totalCount0, searchQuery = query, activityId = None\<rparr>\<rparr>)
                  (setActivities found (store h))\<rparr>"
| "handleAGUIEvent rv now (IMAGES_LOADED aid imgs) h =
     h\<lparr>store := updateMessage (currentMessageIdRef h)
                  (noUpdates\<lparr>u_images := Some imgs,
                     u_metadata := Some \<lparr>totalCount = None, searchQuery = None, activityId = Some aid\<rparr>\<rparr>)
                  (store h)\<rparr>"
| "handleAGUIEvent rv now (TOOL_EXECUTION_START toolName) h =
     h\<lparr>onToolExecutionCalls := onToolExecutionCalls h @ [(toolName, True)]\<rparr>"
| "handleAGUIEvent rv now (TOOL_EXECUTION_END toolName) h =
     h\<lparr>onToolExecutionCalls := onToolExecutionCalls h @ [(toolName, False)]\<rparr>"
| "handleAGUIEvent rv now STREAMING_END h =
     (let h1 = h\<lparr>store := updateMessage (currentMessageIdRef h) (noUpdates\<lparr>u_isStreaming := Some False\<rparr>)
                              (setStreaming False (store h)),
                  currentMessageRef := [],
                  currentMessageIdRef := []\<rparr>
      in if rv = V2 then closeAfterTerminal h1 else h1)"
| "handleAGUIEvent rv now (ERROR message) h =
     (let errorMessage = \<lparr>id_m = ''error-'' @ decimal now, type_m = type_error, content = message,
                          timestamp = now, isStreaming_m = None, activities_m = None, images = None,
                          metadata = None\<rparr>;
          h1 = h\<lparr>store := addMessage errorMessage (setStreaming False (setError (Some message) (store h))),
                 onErrorCalls := onErrorCalls h @ [message]\<rparr>
      in if rv = V2 then closeAfterTerminal h1 else h1)"
| "handleAGUIEvent rv now OTHER_TYPE h = h"

subsection \<open>Opening a connection\<close>

text \<open>
  \<^verbatim>\<open>setupEventSource\<close> of the first revision; \<open>Inl\<close> is the message of the exception it
  lets escape.
\<close>

definition setupEventSource_v1 :: "Env \<Rightarrow> string \<Rightarrow> Hook \<Rightarrow> string + Hook" where
  "setupEventSource_v1 env messageContent h =
     (case URL_throws env of
        Some msg \<Rightarrow> Inl msg
      | None \<Rightarrow>
          (case EventSource_throws env of
             Some msg \<Rightarrow> Inl msg
           | None \<Rightarrow>
               Inr (h\<lparr>sources := sources h @
                        [\<lparr>endpoint_es = endpoint env,
                          message_param = encodeURIComponent messageContent,
                          readyState = CONNECTING\<rparr>],
                      eventSourceRef := Some (length (sources h))\<rparr>)))"

definition setupEventSource_v2 :: "Env \<Rightarrow> string \<Rightarrow> Hook \<Rightarrow> Hook" where
  "setupEventSource_v2 env messageContent h =
     (let h1 = h\<lparr>connectionError := None, store := setError None (store h)\<rparr> in
      if \<not> startsWith (endpoint env) ''http://'' \<and> \<not> startsWith (endpoint env) ''https://'' then
        h1\<lparr>connectionError :=
             Some ''Invalid endpoint URL format. Must be a full URL including protocol and host.''\<rparr>
      else
        (case URL_throws env of
           Some msg \<Rightarrow>
             h1\<lparr>connectionError := Some (''Failed to create URL from endpoint: '' @ endpoint env)\<rparr>
         | None \<Rightarrow>
             (case EventSource_throws env of
                Some msg \<Rightarrow> h1\<lparr>connectionError := Some (''Failed to connect to chat API: '' @ msg)\<rparr>
              | None \<Rightarrow>
                  h1\<lparr>sources := sources h1 @
                       [\<lparr>endpoint_es = endpoint env,
                         message_param = messageContent,
                         readyState = CONNECTING\<rparr>],
                     eventSourceRef := Some (length (sources h1))\<rparr>)))"

subsection \<open>The handlers installed on a connection\<close>

definition onopen :: "Revision \<Rightarrow> Hook \<Rightarrow> Hook" where
  "onopen rv h =
     (let h1 = h\<lparr>isConnected := True, store := setError None (store h)\<rparr> in
      if rv = V2 then h1\<lparr>connectionError := None\<rparr> else h1)"

definition onmessage :: "Revision \<Rightarrow> Env \<Rightarrow> nat \<Rightarrow> string \<Rightarrow> Hook \<Rightarrow> Hook" where
  "onmessage rv env now data h =
     (case parseAGUIEvent (JSON_parse env) data of
        None \<Rightarrow> h
      | Some JSFalsy \<Rightarrow> h
      | Some (JSObject event) \<Rightarrow> handleAGUIEvent rv now event h
      | Some _ \<Rightarrow> handleAGUIEvent rv now OTHER_TYPE h)"

text \<open>
  \<^verbatim>\<open>onerror\<close> of the connection at index \<open>i\<close>. The first revision reads the ready state
  before it closes the connection, the second one after.
\<close>

definition onerror :: "Revision \<Rightarrow> nat \<Rightarrow> Hook \<Rightarrow> Hook" where
  "onerror rv i h =
     (case rv of
        V1 \<Rightarrow>
          (let h1 = h\<lparr>isConnected := False\<rparr>;
               h2 = (if readyState (sources h1 ! i) = CLOSED then
                       h1\<lparr>store := setError (Some ''Connection closed unexpectedly'') (store h1),
                          onErrorCalls := onErrorCalls h1 @ [''Connection lost. Please try again.'']\<rparr>
                     else
                       h1\<lparr>store := setError (Some ''Connection error occurred'') (store h1),
                          onErrorCalls := onErrorCalls h1 @ [''Failed to connect to server'']\<rparr>)
           in h2\<lparr>sources := es_close i (sources h2), eventSourceRef := None\<rparr>)
      | V2 \<Rightarrow>
          (let h1 = h\<lparr>isConnected := False\<rparr>;
               h2 = h1\<lparr>sources := es_close i (sources h1), eventSourceRef := None\<rparr>
           in if readyState (sources h2 ! i) = CLOSED then
                h2\<lparr>onErrorCalls := onErrorCalls h2 @ [''Connection lost. Please try again.''],
                   connectionError := Some ''Connection closed unexpectedly''\<rparr>
              else
                h2\<lparr>onErrorCalls := onErrorCalls h2 @ [''Failed to connect to server''],
                   connectionError := Some ''Connection error occurred''\<rparr>))"

subsection \<open>The operations the hook returns\<close>

text \<open>\<^verbatim>\<open>sendMessage\<close>; \<open>isStreaming\<close> is read from the store.\<close>

definition sendMessage :: "Revision \<Rightarrow> Env \<Rightarrow> string \<Rightarrow> nat \<Rightarrow> Hook \<Rightarrow> Hook" where
  "sendMessage rv env message now h =
     (if isStreaming (store h) then h
      else
        let userMessage = \<lparr>id_m = ''user-'' @ decimal now, type_m = type_user, content = message,
                            timestamp = now, isStreaming_m = None, activities_m = None, images = None,
                            metadata = None\<rparr>
        in case rv of
          V1 \<Rightarrow>
            (let h1 = (case eventSourceRef h of
                         Some i \<Rightarrow> h\<lparr>sources := es_close i (sources h), eventSourceRef := None\<rparr>
                       | None \<Rightarrow> h);
                 h2 = h1\<lparr>store := addMessage userMessage (store h1)\<rparr>
             in case setupEventSource_v1 env message h2 of
                  Inr h3 \<Rightarrow> h3
                | Inl errorMsg \<Rightarrow>
                    h2\<lparr>store := setError (Some errorMsg) (store h2),
                       onErrorCalls := onErrorCalls h2 @ [errorMsg]\<rparr>)
        | V2 \<Rightarrow>
            (let h1 = (case eventSourceRef h of
                         Some i \<Rightarrow> h\<lparr>isManuallyDisconnected := True,
                                     sources := es_close i (sources h),
                                     eventSourceRef := None,
                                     isConnected := False\<rparr>
                       | None \<Rightarrow> h);
                 h2 = h1\<lparr>reconnectTimeoutRef := None\<rparr>;
                 h3 = h2\<lparr>store := addMessage userMessage (store h2)\<rparr>
             in setupEventSource_v2 env message h3))"

definition reconnect :: "Revision \<Rightarrow> Hook \<Rightarrow> Hook" where
  "reconnect rv h =
     (case rv of
        V1 \<Rightarrow>
          (let h1 = (case eventSourceRef h of
                       Some i \<Rightarrow> h\<lparr>sources := es_close i (sources h), eventSourceRef := None\<rparr>
                     | None \<Rightarrow> h)
           in h1\<lparr>isConnected := False, store := setError None (store h1)\<rparr>)
      | V2 \<Rightarrow>
          (let h1 = (case eventSourceRef h of
                       Some i \<Rightarrow> h\<lparr>isManuallyDisconnected := True,
                                   sources := es_close i (sources h),
                                   eventSourceRef := None\<rparr>
                     | None \<Rightarrow> h);
               h2 = h1\<lparr>reconnectTimeoutRef := None\<rparr>
           in h2\<lparr>isConnected := False, connectionError := None,
                 store := setError None (store h2), reconnectAttempts := 0\<rparr>))"

text \<open>The cleanup effect of the second revision, run when the component unmounts.\<close>

definition cleanup :: "Revision \<Rightarrow> Hook \<Rightarrow> Hook" where
  "cleanup rv h =
     (case rv of
        V1 \<Rightarrow> h
      | V2 \<Rightarrow>
          (let h1 = h\<lparr>reconnectTimeoutRef := None\<rparr> in
           case eventSourceRef h1 of
             Some i \<Rightarrow> h1\<lparr>isManuallyDisconnected := True,
                          sources := es_close i (sources h1),
                          eventSourceRef := None\<rparr>
           | None \<Rightarrow> h1))"

subsection \<open>One hook instance, driven by its caller and by the transport\<close>

text \<open>
  The caller calls \<^verbatim>\<open>sendMessage\<close> and \<^verbatim>\<open>reconnect\<close> or unmounts the component. The
  transport reports on the connection at an index: it opened, a frame arrived, or it failed
  (for good, or with the browser about to retry). An \<^verbatim>\<open>EventSource\<close> that is closed
  dispatches nothing.
\<close>

datatype Input =
    SendMessage string nat
  | Reconnect
  | Unmount
  | TransportOpen nat
  | TransportMessage nat string nat
  | TransportError nat bool

definition live :: "Hook \<Rightarrow> nat \<Rightarrow> bool" where
  "live h i = (i < length (sources h) \<and> readyState (sources h ! i) \<noteq> CLOSED)"

definition setReadyState :: "nat \<Rightarrow> ReadyState \<Rightarrow> Hook \<Rightarrow> Hook" where
  "setReadyState i r h = h\<lparr>sources := (sources h)[i := (sources h ! i)\<lparr>readyState := r\<rparr>]\<rparr>"

fun step :: "Revision \<Rightarrow> Env \<Rightarrow> Hook \<Rightarrow> Input \<Rightarrow> Hook" where
  "step rv env h (SendMessage message now) = sendMessage rv env message now h"
| "step rv env h Reconnect = reconnect rv h"
| "step rv env h Unmount = cleanup rv h"
| "step rv env h (TransportOpen i) =
     (if live h i then onopen rv (setReadyState i OPEN h) else h)"
| "step rv env h (TransportMessage i data now) =
     (if live h i then onmessage rv env now data h else h)"
| "step rv env h (TransportError i fatal) =
     (if live h i then onerror rv i (setReadyState i (if fatal then CLOSED else CONNECTING) h) else h)"

definition run :: "Revision \<Rightarrow> Env \<Rightarrow> Hook \<Rightarrow> Input list \<Rightarrow> Hook" where
  "run rv env h inputs = foldl (step rv env) h inputs"

section \<open>\<^verbatim>\<open>SafeEventSource\<close>: \<^verbatim>\<open>frontend/src/utils/eventSource.ts\<close>\<close>

record EventSourceConfig =
  maxReconnectAttempts :: "nat option"
  reconnectDelay :: "nat option"
  debug :: "bool option"

text \<open>\<^verbatim>\<open>x || d\<close> on an optional number: \<^verbatim>\<open>undefined\<close> and \<^verbatim>\<open>0\<close> give the default.\<close>

definition orDefault :: "nat option \<Rightarrow> nat \<Rightarrow> nat" where
  "orDefault x d = (case x of None \<Rightarrow> d | Some n \<Rightarrow> if n = 0 then d else n)"

text \<open>
  The object's fields, the ready state of every \<^verbatim>\<open>EventSource\<close> it has constructed
  (\<open>ses_eventSource\<close> holds the index of one), and in \<open>ses_reconnectTimeout\<close> the delay of
  the pending timer.
\<close>

record SafeEventSource =
  ses_url :: string
  ses_config :: EventSourceConfig
  ses_eventSource :: "nat option"
  ses_isManuallyDisconnected :: bool
  ses_reconnectAttempts :: nat
  ses_reconnectTimeout :: "nat option"
  ses_constructed :: "ReadyState list"

text \<open>The constructor spreads the caller's configuration over the defaults.\<close>

definition createSafeEventSource :: "string \<Rightarrow> EventSourceConfig \<Rightarrow> SafeEventSource" where
  "createSafeEventSource u config =
     \<lparr>ses_url = u,
      ses_config = \<lparr>maxReconnectAttempts = (case maxReconnectAttempts config of None \<Rightarrow> Some 3 | Some n \<Rightarrow> Some n),
                    reconnectDelay = (case reconnectDelay config of None \<Rightarrow> Some 1000 | Some n \<Rightarrow> Some n),
                    debug = (case debug config of None \<Rightarrow> Some False | Some b \<Rightarrow> Some b)\<rparr>,
      ses_eventSource = None,
      ses_isManuallyDisconnected = False,
      ses_reconnectAttempts = 0,
      ses_reconnectTimeout = None,
      ses_constructed = []\<rparr>"

definition clearReconnectTimeout :: "SafeEventSource \<Rightarrow> SafeEventSource" where
  "clearReconnectTimeout s = s\<lparr>ses_reconnectTimeout := None\<rparr>"

definition ses_closeCurrent :: "SafeEventSource \<Rightarrow> SafeEventSource" where
  "ses_closeCurrent s =
     (case ses_eventSource s of
        None \<Rightarrow> s
      | Some i \<Rightarrow> s\<lparr>ses_constructed := (ses_constructed s)[i := CLOSED], ses_eventSource := None\<rparr>)"

definition ses_close :: "SafeEventSource \<Rightarrow> SafeEventSource" where
  "ses_close s = ses_closeCurrent (clearReconnectTimeout (s\<lparr>ses_isManuallyDisconnected := True\<rparr>))"

definition ses_connect :: "SafeEventSource \<Rightarrow> SafeEventSource" where
  "ses_connect s =
     (let s1 = (if ses_eventSource s \<noteq> None then ses_close s else s);
          s2 = s1\<lparr>ses_isManuallyDisconnected := False\<rparr>
      in s2\<lparr>ses_constructed := ses_constructed s2 @ [CONNECTING],
            ses_eventSource := Some (length (ses_constructed s2))\<rparr>)"

definition scheduleReconnect :: "SafeEventSource \<Rightarrow> SafeEventSource" where
  "scheduleReconnect s =
     (let s1 = clearReconnectTimeout s;
          delay = orDefault (reconnectDelay (ses_config s1)) 1000 * 2 ^ (ses_reconnectAttempts s1 - 1)
      in s1\<lparr>ses_reconnectTimeout := Some delay\<rparr>)"

text \<open>The error handler that \<^verbatim>\<open>setupEventHandlers\<close> installs.\<close>

definition ses_onerror :: "SafeEventSource \<Rightarrow> SafeEventSource" where
  "ses_onerror s =
     (let s1 = ses_closeCurrent s in
      if \<not> ses_isManuallyDisconnected s1 then
        (let s2 = s1\<lparr>ses_reconnectAttempts := ses_reconnectAttempts s1 + 1\<rparr> in
         if ses_reconnectAttempts s2 \<le> orDefault (maxReconnectAttempts (ses_config s2)) 3
         then scheduleReconnect s2 else s2)
      else s1)"

text \<open>The callback of the timer that \<^verbatim>\<open>scheduleReconnect\<close> sets.\<close>

definition ses_timeout :: "SafeEventSource \<Rightarrow> SafeEventSource" where
  "ses_timeout s = (if \<not> ses_isManuallyDisconnected s then ses_connect s else s)"

definition ses_destroy :: "SafeEventSource \<Rightarrow> SafeEventSource" where
  "ses_destroy s = clearReconnectTimeout (ses_close s)"

text \<open>
  The object is driven by its owner (\<^verbatim>\<open>connect\<close>, \<^verbatim>\<open>close\<close>, \<^verbatim>\<open>destroy\<close>), by the
  transport (a frame arrives on the current connection, for which the class installs no
  handler; the current connection fails) and by the pending timer.
\<close>

datatype SesInput = SesConnect | SesClose | SesDestroy | SesFrame string | SesTransportError | SesTimerFires

fun ses_step :: "SafeEventSource \<Rightarrow> SesInput \<Rightarrow> SafeEventSource" where
  "ses_step s SesConnect = ses_connect s"
| "ses_step s SesClose = ses_close s"
| "ses_step s SesDestroy = ses_destroy s"
| "ses_step s (SesFrame data) = s"
| "ses_step s SesTransportError = (if ses_eventSource s \<noteq> None then ses_onerror s else s)"
| "ses_step s SesTimerFires =
     (case ses_reconnectTimeout s of
        None \<Rightarrow> s
      | Some delay \<Rightarrow> ses_timeout (s\<lparr>ses_reconnectTimeout := None\<rparr>))"

definition ses_run :: "SafeEventSource \<Rightarrow> SesInput list \<Rightarrow> SafeEventSource" where
  "ses_run s inputs = foldl ses_step s inputs"

section \<open>Notions used to state the properties\<close>

text \<open>
  The text event for the token at index \<open>i\<close> of \<open>n\<close>: a space follows every token but the
  last, and only the last is marked complete.
\<close>

definition tokenEvent :: "nat \<Rightarrow> nat \<Rightarrow> string \<Rightarrow> Event" where
  "tokenEvent n i word = TextMessageEvent (if Suc i < n then word @ '' '' else word) (Suc i = n)"

definition tokenEvents :: "string list \<Rightarrow> Event list" where
  "tokenEvents words = map (\<lambda>(i, word). tokenEvent (length words) i word) (enumerate 0 words)"

definition textOf :: "Event \<Rightarrow> string" where
  "textOf e = (case e of TextMessageEvent c b \<Rightarrow> c | _ \<Rightarrow> [])"

text \<open>The words joined by single spaces.\<close>

fun unwords :: "string list \<Rightarrow> string" where
  "unwords [] = []"
| "unwords [word] = word"
| "unwords (word # rest) = word @ '' '' @ unwords rest"

text \<open>
  The hook is accumulating: the last message of the log is the accumulation target and its
  content is the text accumulated so far.
\<close>

definition accumulating :: "Hook \<Rightarrow> bool" where
  "accumulating h =
     (messages (store h) \<noteq> [] \<and>
      id_m (last (messages (store h))) = currentMessageIdRef h \<and>
      content (last (messages (store h))) = currentMessageRef h)"

definition textEvent :: "string \<times> bool option \<Rightarrow> AGUIEvent" where
  "textEvent chunk = TEXT_MESSAGE_CONTENT (fst chunk) (snd chunk)"

definition chunkOf :: "Event \<Rightarrow> string \<times> bool option" where
  "chunkOf e = (case e of TextMessageEvent c b \<Rightarrow> (c, Some b) | _ \<Rightarrow> ([], None))"

text \<open>
  An event of the producer as the consumer receives it: \<^verbatim>\<open>json.Marshal\<close> writes every field
  of the struct, and \<^verbatim>\<open>JSON.parse\<close> reads them back.
\<close>

fun received :: "Event \<Rightarrow> AGUIEvent" where
  "received (StreamingStartEvent messageID) = STREAMING_START (Some messageID)"
| "received (TextMessageEvent c isComplete) = TEXT_MESSAGE_CONTENT c (Some isComplete)"
| "received StreamingEndEvent = STREAMING_END"
| "received (ErrorEvent m) = ERROR m"

text \<open>The consumer folding a list of events, all at instant \<open>now\<close>.\<close>

definition handleAll :: "Revision \<Rightarrow> nat \<Rightarrow> Hook \<Rightarrow> AGUIEvent list \<Rightarrow> Hook" where
  "handleAll rv now h events = foldl (\<lambda>h e. handleAGUIEvent rv now e h) h events"

text \<open>
  Every connection that is not closed is the one the ref holds, and the ref holds an index
  of a constructed connection.
\<close>

definition refOwnsLive :: "Hook \<Rightarrow> bool" where
  "refOwnsLive h =
     ((\<forall>i. live h i \<longrightarrow> eventSourceRef h = Some i) \<and>
      (\<forall>i. eventSourceRef h = Some i \<longrightarrow> i < length (sources h)))"

text \<open>The text that reaches \<^verbatim>\<open>generateResponse\<close> for a connection the hook has opened.\<close>

definition serverText :: "EventSource \<Rightarrow> string" where
  "serverText es = decodeMessage (queryArgDecode (formSerialize (message_param es)))"



definition isSendMessage :: "Input \<Rightarrow> bool" where
  "isSendMessage inp = (case inp of SendMessage message now \<Rightarrow> True | _ \<Rightarrow> False)"

text \<open>
  The condition of \<open>refOwnsLive\<close> on the list of connections and the ref alone.
\<close>

definition owns :: "EventSource list \<Rightarrow> nat option \<Rightarrow> bool" where
  "owns srcs r =
     ((\<forall>i. i < length srcs \<and> readyState (srcs ! i) \<noteq> CLOSED \<longrightarrow> r = Some i) \<and>
      (\<forall>i. r = Some i \<longrightarrow> i < length srcs))"

text \<open>
  An environment in which a connection can be opened: the endpoint is a full http(s) URL
  and neither constructor throws.
\<close>

definition canConnect :: "Env \<Rightarrow> bool" where
  "canConnect env =
     ((startsWith (endpoint env) ''http://'' \<or> startsWith (endpoint env) ''https://'') \<and>
      URL_throws env = None \<and> EventSource_throws env = None)"

definition userMessage :: "string \<Rightarrow> nat \<Rightarrow> Message" where
  "userMessage text now = \<lparr>id_m = ''user-'' @ decimal now, type_m = type_user, content = text,
     timestamp = now, isStreaming_m = None, activities_m = None, images = None, metadata = None\<rparr>"

definition errorMessage :: "string \<Rightarrow> nat \<Rightarrow> Message" where
  "errorMessage text now = \<lparr>id_m = ''error-'' @ decimal now, type_m = type_error, content = text,
     timestamp = now, isStreaming_m = None, activities_m = None, images = None, metadata = None\<rparr>"

subsection \<open>Frames for the examples\<close>

definition quoted :: "string \<Rightarrow> string" where
  "quoted s = CHR 0x22 # s @ [CHR 0x22]"

definition frameStart :: string where
  "frameStart = ''{'' @ quoted ''type'' @ '':'' @ quoted ''STREAMING_START'' @ '','' @
     quoted ''messageId'' @ '':'' @ quoted ''msg-1'' @ ''}''"

definition frameHi :: string where
  "frameHi = ''{'' @ quoted ''type'' @ '':'' @ quoted ''TEXT_MESSAGE_CONTENT'' @ '','' @
     quoted ''content'' @ '':'' @ quoted ''hi'' @ '','' @ quoted ''isComplete'' @ '':true}''"

definition frameEnd :: string where
  "frameEnd = ''{'' @ quoted ''type'' @ '':'' @ quoted ''STREAMING_END'' @ ''}''"

definition frameErrorEmpty :: string where
  "frameErrorEmpty = ''{'' @ quoted ''type'' @ '':'' @ quoted ''ERROR'' @ '','' @
     quoted ''message'' @ '':'' @ quoted [] @ ''}''"

definition frameGarbage :: string where
  "frameGarbage = ''{'' @ quoted ''type'' @ '':''"

text \<open>
  A stand-in for \<^verbatim>\<open>JSON.parse\<close> in the examples: it reads the four well-formed frames
  above, and every other text, the garbage frame among them, is a syntax error.
\<close>

definition exampleParse :: "string \<Rightarrow> js_value option" where
  "exampleParse data =
     (if data = frameStart then Some (JSObject (STREAMING_START (Some ''msg-1'')))
      else if data = frameHi then Some (JSObject (TEXT_MESSAGE_CONTENT ''hi'' (Some True)))
      else if data = frameEnd then Some (JSObject STREAMING_END)
      else if data = frameErrorEmpty then Some (JSObject (ERROR []))
      else None)"

definition exampleEnv :: Env where
  "exampleEnv = \<lparr>endpoint = ''http://localhost:8080/api/v1/chat/stream'', URL_throws = None,
     EventSource_throws = None, JSON_parse = exampleParse\<rparr>"

section \<open>Properties of the producer\<close>

lemma tokenEvent_code:
  "TextMessageEvent (if int i < int n - 1 then word @ '' '' else word) (int i = int n - 1) = tokenEvent n i word"
  by (auto simp: tokenEvent_def)

lemma wordLoop_Cons:
  "wordLoop n i (word # rest) w =
     (if fst (writeEvent w (tokenEvent n i word)) then snd (writeEvent w (tokenEvent n i word))
      else wordLoop n (Suc i) rest (snd (writeEvent w (tokenEvent n i word))))"
  by (simp add: tokenEvent_code Let_def split: prod.splits)



lemma streamWriter_unfold:
  "streamWriter now m w =
     (if fst (writeEvent w (StreamingStartEvent (''msg-'' @ Sprintf_d now)))
      then snd (writeEvent w (StreamingStartEvent (''msg-'' @ Sprintf_d now)))
      else snd (writeEvent
             (wordLoop (length (Fields (generateResponse m))) 0 (Fields (generateResponse m))
                (snd (writeEvent w (StreamingStartEvent (''msg-'' @ Sprintf_d now)))))
             StreamingEndEvent))"
  by (simp add: streamWriter_def Let_def split: prod.splits)


lemma wordLoop_all_written:
  "faults w = replicate (length ws) False @ fs \<or> faults w = [] \<Longrightarrow>
   wordLoop n i ws w =
     w\<lparr>written := written w @ map (\<lambda>(j, word). tokenEvent n j word) (enumerate i ws),
       faults := drop (length ws) (faults w)\<rparr>"
proof (induction ws arbitrary: i w)
  case Nil
  then show ?case by simp
next
  case (Cons word rest)
  let ?w' = "snd (writeEvent w (tokenEvent n i word))"
  from Cons.prems have ok: "fst (writeEvent w (tokenEvent n i word)) = False"
    and w': "?w' = w\<lparr>written := written w @ [tokenEvent n i word], faults := drop 1 (faults w)\<rparr>"
    by (auto simp: writeEvent_def)
  from Cons.prems have "faults ?w' = replicate (length rest) False @ fs \<or> faults ?w' = []"
    unfolding w' by auto
  from Cons.IH[OF this, of "Suc i"] show ?case
    unfolding wordLoop_Cons using ok by (simp add: w')
qed



text \<open>A sweep of the cleanup goroutine does not change which texts are recent.\<close>

lemma cleanup_keeps_recent:
  "t \<le> now \<Longrightarrow> isRecentMessage (cleanupOldMessages t h) now q = isRecentMessage h now q"
  by (auto simp: isRecentMessage_def cleanupOldMessages_def Let_def Second_def split: option.splits)

subsection \<open>Duplicate suppression\<close>




subsection \<open>Write failures in mid-stream\<close>





section \<open>Properties of the consumer\<close>

subsection \<open>Connections and the ref\<close>

lemma refOwnsLive_owns: "refOwnsLive h = owns (sources h) (eventSourceRef h)"
  by (simp add: refOwnsLive_def owns_def live_def)

lemma length_es_close [simp]: "length (es_close i srcs) = length srcs"
  by (simp add: es_close_def)

lemma owns_live:
  "owns srcs r \<Longrightarrow> i < length srcs \<Longrightarrow> readyState (srcs ! i) \<noteq> CLOSED \<Longrightarrow> r = Some i"
  unfolding owns_def by blast

lemma owns_close: "owns srcs (Some i) \<Longrightarrow> owns (es_close i srcs) None"
  by (auto simp: owns_def es_close_def nth_list_update)

lemma owns_append: "owns srcs None \<Longrightarrow> owns (srcs @ [e]) (Some (length srcs))"
  by (auto simp: owns_def nth_append)

lemma owns_close_append:
  "owns srcs (Some i) \<Longrightarrow> owns (es_close i srcs @ [e]) (Some (length srcs))"
  using owns_append[OF owns_close, of srcs i e] by simp

lemma owns_update:
  assumes o: "owns srcs r" and i: "i < length srcs" and l: "readyState (srcs ! i) \<noteq> CLOSED"
  shows "owns (srcs[i := x]) r"
proof -
  have r: "r = Some i" by (rule owns_live[OF o i l])
  show ?thesis
    unfolding owns_def
  proof (intro conjI allI impI)
    fix j
    assume a: "j < length (srcs[i := x]) \<and> readyState (srcs[i := x] ! j) \<noteq> CLOSED"
    show "r = Some j"
    proof (cases "j = i")
      case True
      with r show ?thesis by simp
    next
      case False
      with a have "j < length srcs" "readyState (srcs ! j) \<noteq> CLOSED" by simp_all
      then show ?thesis by (rule owns_live[OF o])
    qed
  next
    fix j
    assume "r = Some j"
    with r i show "j < length (srcs[i := x])" by simp
  qed
qed

lemma owns_None_closed: "owns srcs None \<Longrightarrow> i < length srcs \<Longrightarrow> readyState (srcs ! i) = CLOSED"
  unfolding owns_def by blast


lemma handleAGUIEvent_sources_length:
  "length (sources (handleAGUIEvent rv now e h)) = length (sources h)"
  by (cases e) (simp_all add: closeAfterTerminal_def Let_def split: option.splits)

lemma handleAGUIEvent_owns:
  "refOwnsLive h \<Longrightarrow> refOwnsLive (handleAGUIEvent rv now e h)"
  unfolding refOwnsLive_owns
  by (cases e) (auto simp: closeAfterTerminal_def Let_def owns_close split: option.splits)

lemma onmessage_owns: "refOwnsLive h \<Longrightarrow> refOwnsLive (onmessage rv env now data h)"
  by (simp add: onmessage_def handleAGUIEvent_owns split: option.splits js_value.splits)

lemma onmessage_sources_length:
  "length (sources (onmessage rv env now data h)) = length (sources h)"
  by (simp add: onmessage_def handleAGUIEvent_sources_length split: option.splits js_value.splits)

lemma sendMessage_owns: "refOwnsLive h \<Longrightarrow> refOwnsLive (sendMessage rv env message now h)"
  unfolding refOwnsLive_owns
  by (cases rv)
     (auto simp: sendMessage_def setupEventSource_v1_def setupEventSource_v2_def Let_def
        owns_close owns_append owns_close_append split: option.splits sum.splits)

lemma reconnect_owns: "refOwnsLive h \<Longrightarrow> refOwnsLive (reconnect rv h)"
  unfolding refOwnsLive_owns
  by (cases rv) (auto simp: reconnect_def Let_def owns_close split: option.splits)

lemma cleanup_owns: "refOwnsLive h \<Longrightarrow> refOwnsLive (cleanup rv h)"
  unfolding refOwnsLive_owns
  by (cases rv) (auto simp: cleanup_def Let_def owns_close split: option.splits)

lemma onopen_owns:
  "live h i \<Longrightarrow> refOwnsLive h \<Longrightarrow> refOwnsLive (onopen rv (setReadyState i OPEN h))"
  unfolding refOwnsLive_owns
  by (simp add: onopen_def setReadyState_def Let_def live_def owns_update)

lemma onerror_conn:
  "sources (onerror rv i h) = es_close i (sources h) \<and> eventSourceRef (onerror rv i h) = None"
  by (cases rv) (simp_all add: onerror_def Let_def)

lemma es_close_update:
  "i < length srcs \<Longrightarrow> es_close i (srcs[i := x]) = srcs[i := x\<lparr>readyState := CLOSED\<rparr>]"
  by (simp add: es_close_def)

lemma owns_closed_update:
  assumes o: "owns srcs r" and i: "i < length srcs" and l: "readyState (srcs ! i) \<noteq> CLOSED"
    and x: "readyState x = CLOSED"
  shows "owns (srcs[i := x]) None"
proof -
  have r: "r = Some i" by (rule owns_live[OF o i l])
  show ?thesis
    unfolding owns_def
  proof (intro conjI allI impI)
    fix j
    assume a: "j < length (srcs[i := x]) \<and> readyState (srcs[i := x] ! j) \<noteq> CLOSED"
    show "None = Some j"
    proof (cases "j = i")
      case True
      with a i x show ?thesis by simp
    next
      case False
      with a have "j < length srcs" "readyState (srcs ! j) \<noteq> CLOSED" by simp_all
      then have "r = Some j" by (rule owns_live[OF o])
      with r False show ?thesis by simp
    qed
  next
    fix j :: nat
    assume "None = Some j"
    then show "j < length (srcs[i := x])" by simp
  qed
qed

lemma onerror_owns:
  "live h i \<Longrightarrow> refOwnsLive h \<Longrightarrow> refOwnsLive (onerror rv i (setReadyState i s h))"
  unfolding refOwnsLive_owns onerror_conn[THEN conjunct1] onerror_conn[THEN conjunct2]
  by (simp add: setReadyState_def live_def es_close_update owns_closed_update)

lemma step_owns: "refOwnsLive h \<Longrightarrow> refOwnsLive (step rv env h inp)"
  by (cases inp)
     (simp_all add: sendMessage_owns reconnect_owns cleanup_owns onopen_owns onmessage_owns onerror_owns)

lemma run_owns: "refOwnsLive h \<Longrightarrow> refOwnsLive (run rv env h inputs)"
  unfolding run_def by (induction inputs arbitrary: h) (simp_all add: step_owns)

lemma initial_owns: "refOwnsLive initialHook"
  by (simp add: refOwnsLive_owns owns_def initialHook_def)

lemma step_sources_length:
  assumes "\<not> isSendMessage inp"
  shows "length (sources (step rv env h inp)) = length (sources h)"
proof (cases inp)
  case (SendMessage m t)
  with assms show ?thesis by (simp add: isSendMessage_def)
next
  case Reconnect
  then show ?thesis by (cases rv) (simp_all add: reconnect_def Let_def split: option.splits)
next
  case Unmount
  then show ?thesis by (cases rv) (simp_all add: cleanup_def Let_def split: option.splits)
next
  case (TransportOpen i)
  then show ?thesis by (simp add: onopen_def setReadyState_def Let_def)
next
  case (TransportMessage i d t)
  then show ?thesis by (simp add: onmessage_sources_length)
next
  case (TransportError i f)
  then show ?thesis by (cases rv) (simp_all add: onerror_def setReadyState_def Let_def)
qed

lemma run_sources_length:
  "\<forall>inp \<in> set inputs. \<not> isSendMessage inp \<Longrightarrow>
   length (sources (run rv env h inputs)) = length (sources h)"
  unfolding run_def by (induction inputs arbitrary: h) (simp_all add: step_sources_length)

subsection \<open>No reconnection by the consumer\<close>

text \<open>
  Claim C1, as stated, on \<^verbatim>\<open>SafeEventSource\<close> with its default configuration: the object
  connects, the end frame of the stream arrives, the server closes the connection and the
  transport reports the error. The error handler schedules a reconnection after 1000 ms,
  and when the timer fires a second \<^verbatim>\<open>EventSource\<close> is constructed, with no call from
  the owner.
\<close>

theorem SafeEventSource_reconnects_by_itself:
  "ses_reconnectTimeout
     (ses_run (createSafeEventSource ''http://localhost:8080/api/v1/chat/stream?message=hi''
                 \<lparr>maxReconnectAttempts = None, reconnectDelay = None, debug = None\<rparr>)
        [SesConnect, SesFrame frameEnd, SesTransportError]) = Some 1000 \<and>
   ses_constructed
     (ses_run (createSafeEventSource ''http://localhost:8080/api/v1/chat/stream?message=hi''
                 \<lparr>maxReconnectAttempts = None, reconnectDelay = None, debug = None\<rparr>)
        [SesConnect, SesFrame frameEnd, SesTransportError, SesTimerFires]) = [CLOSED, CONNECTING]"
  by (simp add: ses_run_def createSafeEventSource_def ses_connect_def ses_onerror_def
      ses_closeCurrent_def scheduleReconnect_def clearReconnectTimeout_def ses_timeout_def
      orDefault_def Let_def)

text \<open>
  Claim C1, amended to the hook. In both revisions the hook constructs an
  \<^verbatim>\<open>EventSource\<close> nowhere but in \<^verbatim>\<open>sendMessage\<close>: from any state, and from the state
  after any event has been handled, a terminal event in particular, a sequence of inputs
  without a call of \<^verbatim>\<open>sendMessage\<close> (frames, transport errors, \<^verbatim>\<open>reconnect\<close>,
  unmounting) leaves the number of connections attempted as it was.
\<close>

theorem hook_connects_only_in_sendMessage:
  assumes "\<forall>inp \<in> set inputs. \<not> isSendMessage inp"
  shows "length (sources (run rv env h inputs)) = length (sources h) \<and>
         length (sources (run rv env (handleAGUIEvent rv now e h) inputs)) = length (sources h)"
  using run_sources_length[OF assms, of rv env h]
    run_sources_length[OF assms, of rv env "handleAGUIEvent rv now e h"]
  by (simp add: handleAGUIEvent_sources_length)

theorem hook_connects_only_in_sendMessage_witness:
  "\<not> isSendMessage (TransportError 0 False) \<and> \<not> isSendMessage Reconnect \<and>
   \<not> isSendMessage (TransportOpen 0) \<and> \<not> isSendMessage Unmount \<and>
   length (sources (run V2 exampleEnv
       (handleAGUIEvent V2 2 STREAMING_END
          (run V2 exampleEnv initialHook
             [SendMessage ''hi'' 0, TransportOpen 0, TransportMessage 0 frameStart 1]))
       [TransportError 0 False, Reconnect, TransportOpen 0, Unmount])) = 1"
proof -
  have a: "\<forall>inp \<in> set [TransportError 0 False, Reconnect, TransportOpen 0, Unmount]. \<not> isSendMessage inp"
    by (simp add: isSendMessage_def)
  have b: "length (sources (run V2 exampleEnv initialHook
          [SendMessage ''hi'' 0, TransportOpen 0, TransportMessage 0 frameStart 1])) = 1"
    by code_simp
  show ?thesis
    using a b hook_connects_only_in_sendMessage[OF a, of V2 exampleEnv
        "run V2 exampleEnv initialHook
          [SendMessage ''hi'' 0, TransportOpen 0, TransportMessage 0 frameStart 1]" 2 STREAMING_END]
    by simp
qed

lemma sendMessage_streaming: "isStreaming (store h) \<Longrightarrow> sendMessage rv env text now h = h"
  by (simp add: sendMessage_def)

lemma sendMessage_opens:
  assumes "\<not> isStreaming (store h)" and "canConnect env"
  shows "sources (sendMessage rv env text now h) =
           (case eventSourceRef h of Some i \<Rightarrow> es_close i (sources h) | None \<Rightarrow> sources h) @
           [\<lparr>endpoint_es = endpoint env,
             message_param = (case rv of V1 \<Rightarrow> encodeURIComponent text | V2 \<Rightarrow> text),
             readyState = CONNECTING\<rparr>]"
    and "eventSourceRef (sendMessage rv env text now h) = Some (length (sources h))"
    and "messages (store (sendMessage rv env text now h)) = messages (store h) @ [userMessage text now]"
  using assms
  by (cases rv; cases "eventSourceRef h";
      simp add: sendMessage_def setupEventSource_v1_def setupEventSource_v2_def canConnect_def
        Let_def userMessage_def addMessage_def setError_def)+



subsection \<open>Sending a query\<close>



subsection \<open>Terminal events\<close>

lemma closeAfterTerminal_store [simp]: "store (closeAfterTerminal h) = store h"
  by (simp add: closeAfterTerminal_def Let_def split: option.splits)

lemma closeAfterTerminal_closes:
  assumes "refOwnsLive h" and "live h i"
  shows "\<not> isConnected (closeAfterTerminal h)"
    and "eventSourceRef (closeAfterTerminal h) = None"
    and "\<not> live (closeAfterTerminal h) j"
proof -
  from assms have r: "eventSourceRef h = Some i" by (simp add: refOwnsLive_def)
  from assms r have o: "owns (es_close i (sources h)) None"
    by (simp add: refOwnsLive_owns owns_close)
  show "\<not> isConnected (closeAfterTerminal h)"
    and "eventSourceRef (closeAfterTerminal h) = None"
    using r by (simp_all add: closeAfterTerminal_def Let_def)
  have "sources (closeAfterTerminal h) = es_close i (sources h)"
    using r by (simp add: closeAfterTerminal_def Let_def)
  then show "\<not> live (closeAfterTerminal h) j"
    using owns_None_closed[OF o, of j] by (auto simp: live_def)
qed

lemma handle_STREAMING_END:
  "\<not> isStreaming (store (handleAGUIEvent rv now STREAMING_END h))"
  by (simp add: Let_def updateMessage_def setStreaming_def)

lemma handle_ERROR:
  "\<not> isStreaming (store (handleAGUIEvent rv now (ERROR m) h))"
  "error (store (handleAGUIEvent rv now (ERROR m) h)) = Some m"
  "messages (store (handleAGUIEvent rv now (ERROR m) h)) = messages (store h) @ [errorMessage m now]"
  by (simp_all add: Let_def addMessage_def setStreaming_def setError_def errorMessage_def)

lemma handle_terminal_V2:
  assumes "e = STREAMING_END \<or> e = ERROR m" and "refOwnsLive h" and "live h i"
  shows "\<not> isConnected (handleAGUIEvent V2 now e h)"
    and "eventSourceRef (handleAGUIEvent V2 now e h) = None"
    and "\<not> live (handleAGUIEvent V2 now e h) j"
proof -
  let ?h1 = "h\<lparr>store := updateMessage (currentMessageIdRef h) (noUpdates\<lparr>u_isStreaming := Some False\<rparr>)
                              (setStreaming False (store h)),
                  currentMessageRef := [],
                  currentMessageIdRef := []\<rparr>"
  let ?h2 = "h\<lparr>store := addMessage (errorMessage m now) (setStreaming False (setError (Some m) (store h))),
                 onErrorCalls := onErrorCalls h @ [m]\<rparr>"
  have o1: "refOwnsLive ?h1" "live ?h1 i" and o2: "refOwnsLive ?h2" "live ?h2 i"
    using assms(2,3) by (simp_all add: refOwnsLive_owns live_def)
  have e1: "handleAGUIEvent V2 now STREAMING_END h = closeAfterTerminal ?h1"
    by (simp add: Let_def)
  have e2: "handleAGUIEvent V2 now (ERROR m) h = closeAfterTerminal ?h2"
    by (simp add: Let_def errorMessage_def)
  show "\<not> isConnected (handleAGUIEvent V2 now e h)"
    using assms(1) closeAfterTerminal_closes(1)[OF o1] closeAfterTerminal_closes(1)[OF o2]
    unfolding e1[symmetric] e2[symmetric] by blast
  show "eventSourceRef (handleAGUIEvent V2 now e h) = None"
    using assms(1) closeAfterTerminal_closes(2)[OF o1] closeAfterTerminal_closes(2)[OF o2]
    unfolding e1[symmetric] e2[symmetric] by blast
  show "\<not> live (handleAGUIEvent V2 now e h) j"
    using assms(1) closeAfterTerminal_closes(3)[OF o1, of j] closeAfterTerminal_closes(3)[OF o2, of j]
    unfolding e1[symmetric] e2[symmetric] by blast
qed

lemma step_message:
  "live h i \<Longrightarrow> parseAGUIEvent (JSON_parse env) data = Some (JSObject e) \<Longrightarrow>
   step rv env h (TransportMessage i data now) = handleAGUIEvent rv now e h"
  by (simp add: onmessage_def)

text \<open>
  Claim C4, as stated. In the first revision the end event leaves the connection open and
  \<open>isConnected\<close> true. In the second revision an error event whose message is empty leaves
  the empty message as the error state, and the error that the hook returns is undefined.
\<close>

theorem terminal_event_first_revision_stays_open:
  "isConnected (run V1 exampleEnv initialHook
     [SendMessage ''hi'' 0, TransportOpen 0, TransportMessage 0 frameStart 1,
      TransportMessage 0 frameEnd 2]) \<and>
   readyState (sources (run V1 exampleEnv initialHook
     [SendMessage ''hi'' 0, TransportOpen 0, TransportMessage 0 frameStart 1,
      TransportMessage 0 frameEnd 2]) ! 0) = OPEN \<and>
   error (store (run V2 exampleEnv initialHook
     [SendMessage ''hi'' 0, TransportOpen 0, TransportMessage 0 frameStart 1,
      TransportMessage 0 frameErrorEmpty 2])) = Some [] \<and>
   combinedError (run V2 exampleEnv initialHook
     [SendMessage ''hi'' 0, TransportOpen 0, TransportMessage 0 frameStart 1,
      TransportMessage 0 frameErrorEmpty 2]) = None"
  by code_simp

text \<open>
  Claim C4, amended. Let a terminal event arrive on a connection that is not closed, in a
  state \<open>h\<close> that a hook instance has reached. After the end event the store is not
  streaming. After an error event with message \<open>m\<close> the store is not streaming, its error
  is \<open>m\<close> (non-empty when \<open>m\<close> is) and the log has gained exactly one message, of type
  error and with content \<open>m\<close>. In the second revision, after either event, \<open>isConnected\<close>
  is false, the ref is empty and no connection is left open.
\<close>

theorem terminal_event_ends_stream:
  assumes "h = run rv env initialHook inputs"
    and "live h i"
    and "parseAGUIEvent (JSON_parse env) data = Some (JSObject e)"
    and "h' = step rv env h (TransportMessage i data now)"
  shows "(e = STREAMING_END \<longrightarrow> \<not> isStreaming (store h')) \<and>
         (e = ERROR m \<longrightarrow>
            \<not> isStreaming (store h') \<and> error (store h') = Some m \<and>
            messages (store h') = messages (store h) @ [errorMessage m now]) \<and>
         ((e = STREAMING_END \<or> e = ERROR m) \<and> rv = V2 \<longrightarrow>
            \<not> isConnected h' \<and> eventSourceRef h' = None \<and> (\<forall>j. \<not> live h' j))"
proof -
  have o: "refOwnsLive h" unfolding assms(1) by (rule run_owns[OF initial_owns])
  have h': "h' = handleAGUIEvent rv now e h"
    unfolding assms(4) by (rule step_message[OF assms(2,3)])
  have p1: "e = STREAMING_END \<longrightarrow> \<not> isStreaming (store h')"
    unfolding h' using handle_STREAMING_END[of rv now h] by blast
  have p2: "e = ERROR m \<longrightarrow>
            \<not> isStreaming (store h') \<and> error (store h') = Some m \<and>
            messages (store h') = messages (store h) @ [errorMessage m now]"
    unfolding h' using handle_ERROR[of rv now m h] by blast
  have p3: "(e = STREAMING_END \<or> e = ERROR m) \<and> rv = V2 \<longrightarrow>
            \<not> isConnected h' \<and> eventSourceRef h' = None \<and> (\<forall>j. \<not> live h' j)"
  proof
    assume a: "(e = STREAMING_END \<or> e = ERROR m) \<and> rv = V2"
    then have t: "e = STREAMING_END \<or> e = ERROR m" and v: "rv = V2" by simp_all
    show "\<not> isConnected h' \<and> eventSourceRef h' = None \<and> (\<forall>j. \<not> live h' j)"
      unfolding h' v
      using handle_terminal_V2(1)[OF t o assms(2)] handle_terminal_V2(2)[OF t o assms(2)]
        handle_terminal_V2(3)[OF t o assms(2)]
      by blast
  qed
  from p1 p2 p3 show ?thesis by blast
qed

theorem terminal_event_ends_stream_witness:
  "live (run V2 exampleEnv initialHook
       [SendMessage ''hi'' 0, TransportOpen 0, TransportMessage 0 frameStart 1]) 0 \<and>
   parseAGUIEvent (JSON_parse exampleEnv) frameEnd = Some (JSObject STREAMING_END) \<and>
   parseAGUIEvent (JSON_parse exampleEnv) frameErrorEmpty = Some (JSObject (ERROR [])) \<and>
   \<not> isStreaming (store (step V2 exampleEnv (run V2 exampleEnv initialHook
       [SendMessage ''hi'' 0, TransportOpen 0, TransportMessage 0 frameStart 1])
       (TransportMessage 0 frameEnd 2))) \<and>
   \<not> isConnected (step V2 exampleEnv (run V2 exampleEnv initialHook
       [SendMessage ''hi'' 0, TransportOpen 0, TransportMessage 0 frameStart 1])
       (TransportMessage 0 frameEnd 2)) \<and>
   error (store (step V2 exampleEnv (run V2 exampleEnv initialHook
       [SendMessage ''hi'' 0, TransportOpen 0, TransportMessage 0 frameStart 1])
       (TransportMessage 0 frameErrorEmpty 2))) = Some [] \<and>
   \<not> isConnected (step V2 exampleEnv (run V2 exampleEnv initialHook
       [SendMessage ''hi'' 0, TransportOpen 0, TransportMessage 0 frameStart 1])
       (TransportMessage 0 frameErrorEmpty 2))"
proof -
  let ?h = "run V2 exampleEnv initialHook
       [SendMessage ''hi'' 0, TransportOpen 0, TransportMessage 0 frameStart 1]"
  have a: "live ?h 0" by code_simp
  have b: "parseAGUIEvent (JSON_parse exampleEnv) frameEnd = Some (JSObject STREAMING_END)"
    by code_simp
  have c: "parseAGUIEvent (JSON_parse exampleEnv) frameErrorEmpty = Some (JSObject (ERROR []))"
    by code_simp
  show ?thesis
    using a b c
      terminal_event_ends_stream[OF refl a b refl, where now = 2 and m = "[]"]
      terminal_event_ends_stream[OF refl a c refl, where now = 2 and m = "[]"]
    by simp
qed

subsection \<open>Loss of the connection\<close>

text \<open>The error handler of a connection never changes the streaming flag of the store.\<close>

lemma step_TransportError_isStreaming:
  "isStreaming (store (step rv env h (TransportError i fatal))) = isStreaming (store h)"
  by (cases rv) (simp_all add: onerror_def setReadyState_def setError_def Let_def)

lemma run_snoc: "run rv env h (inputs @ [inp]) = step rv env (run rv env h inputs) inp"
  by (simp add: run_def)

text \<open>
  Claim C7 at a connection that is lost in mid-stream: the query is sent, the connection
  opens, the start event arrives and then the transport reports an error. In both revisions
  the error handler records the error and closes the connection, but the store is still
  streaming, and so the next \<^verbatim>\<open>sendMessage\<close> is ignored.
\<close>

theorem connection_lost_leaves_streaming_set:
  "isStreaming (store (run V1 exampleEnv initialHook
     [SendMessage ''hi'' 0, TransportOpen 0, TransportMessage 0 frameStart 1, TransportError 0 True])) \<and>
   isStreaming (store (run V2 exampleEnv initialHook
     [SendMessage ''hi'' 0, TransportOpen 0, TransportMessage 0 frameStart 1, TransportError 0 True])) \<and>
   error (store (run V1 exampleEnv initialHook
     [SendMessage ''hi'' 0, TransportOpen 0, TransportMessage 0 frameStart 1, TransportError 0 True])) =
     Some ''Connection closed unexpectedly'' \<and>
   connectionError (run V2 exampleEnv initialHook
     [SendMessage ''hi'' 0, TransportOpen 0, TransportMessage 0 frameStart 1, TransportError 0 True]) =
     Some ''Connection closed unexpectedly'' \<and>
   run V2 exampleEnv initialHook
     ([SendMessage ''hi'' 0, TransportOpen 0, TransportMessage 0 frameStart 1, TransportError 0 True] @
      [SendMessage ''again'' 9]) =
   run V2 exampleEnv initialHook
     [SendMessage ''hi'' 0, TransportOpen 0, TransportMessage 0 frameStart 1, TransportError 0 True]"
proof -
  let ?ins = "[SendMessage ''hi'' 0, TransportOpen 0, TransportMessage 0 frameStart 1, TransportError 0 True]"
  have a: "isStreaming (store (run V1 exampleEnv initialHook ?ins))" by code_simp
  have b: "isStreaming (store (run V2 exampleEnv initialHook ?ins))" by code_simp
  have c: "error (store (run V1 exampleEnv initialHook ?ins)) = Some ''Connection closed unexpectedly''"
    by code_simp
  have d: "connectionError (run V2 exampleEnv initialHook ?ins) = Some ''Connection closed unexpectedly''"
    by code_simp
  have e: "run V2 exampleEnv initialHook (?ins @ [SendMessage ''again'' 9]) = run V2 exampleEnv initialHook ?ins"
    unfolding run_snoc using b by (simp add: sendMessage_streaming)
  from a b c d e show ?thesis by blast
qed

subsection \<open>Folding events into the log\<close>

lemma spread_noUpdates [simp]: "spread msg noUpdates = msg"
  by (simp add: spread_def noUpdates_def)

lemma spread_id: "u_id u = None \<Longrightarrow> id_m (spread msg u) = id_m msg"
  by (simp add: spread_def)

lemma messages_updateMessage:
  "messages (updateMessage k u s) = map (\<lambda>msg. if id_m msg = k then spread msg u else msg) (messages s)"
  by (simp add: updateMessage_def)

lemma updatesI:
  "u_id u = None \<Longrightarrow> ms' = messages (updateMessage cur u s) \<Longrightarrow>
   (\<exists>m. ms' = ms @ [m]) \<or> (\<exists>u. u_id u = None \<and> ms' = messages (updateMessage cur u s))"
  by blast

lemma u_id_noUpdates [simp]: "u_id noUpdates = None"
  by (simp add: noUpdates_def)

lemma messages_update_noUpdates: "messages (updateMessage cur noUpdates s) = messages s"
  by (simp add: messages_updateMessage map_idI)

lemma handle_log:
  "(\<exists>m. messages (store (handleAGUIEvent rv now e h)) = messages (store h) @ [m]) \<or>
   (\<exists>u. u_id u = None \<and>
        messages (store (handleAGUIEvent rv now e h)) =
          messages (updateMessage (currentMessageIdRef h) u (store h)))"
proof (cases e)
  case (STREAMING_START mid)
  then show ?thesis by (simp add: Let_def addMessage_def setStreaming_def)
next
  case (TEXT_MESSAGE_CONTENT c b)
  show ?thesis
    unfolding TEXT_MESSAGE_CONTENT
    by (rule updatesI[of "noUpdates\<lparr>u_content := Some (currentMessageRef h @ c),
          u_isStreaming := Some (b \<noteq> Some True)\<rparr>"]) (simp_all add: Let_def)
next
  case (ACTIVITIES_FOUND found total q)
  show ?thesis
    unfolding ACTIVITIES_FOUND
    by (rule updatesI[of "noUpdates\<lparr>u_activities := Some found,
          u_metadata := Some \<lparr>totalCount = Some total, searchQuery = q, activityId = None\<rparr>\<rparr>"])
       (simp_all add: messages_updateMessage setActivities_def)
next
  case (IMAGES_LOADED aid imgs)
  show ?thesis
    unfolding IMAGES_LOADED
    by (rule updatesI[of "noUpdates\<lparr>u_images := Some imgs,
          u_metadata := Some \<lparr>totalCount = None, searchQuery = None, activityId = Some aid\<rparr>\<rparr>"])
       simp_all
next
  case (TOOL_EXECUTION_START n)
  show ?thesis
    unfolding TOOL_EXECUTION_START
    by (rule updatesI[of noUpdates]) (simp_all add: messages_update_noUpdates)
next
  case (TOOL_EXECUTION_END n)
  show ?thesis
    unfolding TOOL_EXECUTION_END
    by (rule updatesI[of noUpdates]) (simp_all add: messages_update_noUpdates)
next
  case STREAMING_END
  show ?thesis
    unfolding STREAMING_END
    by (rule updatesI[of "noUpdates\<lparr>u_isStreaming := Some False\<rparr>"])
       (simp_all add: Let_def messages_updateMessage setStreaming_def)
next
  case (ERROR m)
  then show ?thesis by (simp add: Let_def addMessage_def setStreaming_def setError_def)
next
  case OTHER_TYPE
  show ?thesis
    unfolding OTHER_TYPE
    by (rule updatesI[of noUpdates]) (simp_all add: messages_update_noUpdates)
qed

text \<open>
  Claim C10. \<^verbatim>\<open>updateMessage\<close> keeps the length of the log and changes, in place, only the
  messages with the given id. Every case of \<^verbatim>\<open>handleAGUIEvent\<close> either appends one message
  to the log or updates, leaving their id, the messages with the id of the accumulation
  target (the tool events and the events of unknown type update nothing); so no message is
  removed, every message keeps its position and its id, and a message with another id than
  the target's stays as it is.
\<close>

theorem event_handlers_keep_the_log:
  "length (messages (updateMessage k updates s)) = length (messages s) \<and>
   (\<forall>n < length (messages s).
      messages (updateMessage k updates s) ! n =
        (if id_m (messages s ! n) = k then spread (messages s ! n) updates else messages s ! n)) \<and>
   length (messages (store h)) \<le> length (messages (store (handleAGUIEvent rv now e h))) \<and>
   (\<forall>n < length (messages (store h)).
      id_m (messages (store (handleAGUIEvent rv now e h)) ! n) = id_m (messages (store h) ! n) \<and>
      (id_m (messages (store h) ! n) \<noteq> currentMessageIdRef h \<longrightarrow>
         messages (store (handleAGUIEvent rv now e h)) ! n = messages (store h) ! n)) \<and>
   ((\<exists>m. messages (store (handleAGUIEvent rv now e h)) = messages (store h) @ [m]) \<or>
    (\<exists>u. u_id u = None \<and>
         messages (store (handleAGUIEvent rv now e h)) =
           messages (updateMessage (currentMessageIdRef h) u (store h))))"
proof -
  let ?ms = "messages (store h)"
  let ?ms' = "messages (store (handleAGUIEvent rv now e h))"
  have u1: "length (messages (updateMessage k updates s)) = length (messages s)"
    by (simp add: messages_updateMessage)
  have u2: "\<forall>n < length (messages s).
      messages (updateMessage k updates s) ! n =
        (if id_m (messages s ! n) = k then spread (messages s ! n) updates else messages s ! n)"
    by (simp add: messages_updateMessage)
  have l: "length ?ms \<le> length ?ms'"
    using handle_log[of rv now e h] by (auto simp: messages_updateMessage)
  have f: "\<forall>n < length ?ms.
      id_m (?ms' ! n) = id_m (?ms ! n) \<and>
      (id_m (?ms ! n) \<noteq> currentMessageIdRef h \<longrightarrow> ?ms' ! n = ?ms ! n)"
    using handle_log[of rv now e h]
    by (auto simp: messages_updateMessage nth_append spread_id)
  from u1 u2 l f handle_log[of rv now e h] show ?thesis by blast
qed

theorem event_handlers_keep_the_log_witness:
  "0 < length (messages (store (run V2 exampleEnv initialHook
       [SendMessage ''hi'' 0, TransportOpen 0, TransportMessage 0 frameStart 1]))) \<and>
   id_m (messages (store (run V2 exampleEnv initialHook
       [SendMessage ''hi'' 0, TransportOpen 0, TransportMessage 0 frameStart 1])) ! 0) \<noteq>
     currentMessageIdRef (run V2 exampleEnv initialHook
       [SendMessage ''hi'' 0, TransportOpen 0, TransportMessage 0 frameStart 1]) \<and>
   messages (store (handleAGUIEvent V2 2 (TEXT_MESSAGE_CONTENT ''hi'' None)
       (run V2 exampleEnv initialHook
          [SendMessage ''hi'' 0, TransportOpen 0, TransportMessage 0 frameStart 1]))) ! 0 =
     messages (store (run V2 exampleEnv initialHook
       [SendMessage ''hi'' 0, TransportOpen 0, TransportMessage 0 frameStart 1])) ! 0"
proof -
  let ?h = "run V2 exampleEnv initialHook
       [SendMessage ''hi'' 0, TransportOpen 0, TransportMessage 0 frameStart 1]"
  have a: "0 < length (messages (store ?h))" by code_simp
  have b: "id_m (messages (store ?h) ! 0) \<noteq> currentMessageIdRef ?h" by code_simp
  show ?thesis
    using a b event_handlers_keep_the_log[of "[]" noUpdates initialChatState ?h V2 2
        "TEXT_MESSAGE_CONTENT ''hi'' None"]
    by blast
qed

lemma handle_START:
  "accumulating (handleAGUIEvent rv now (STREAMING_START mid) h)"
  "currentMessageRef (handleAGUIEvent rv now (STREAMING_START mid) h) = []"
  "sources (handleAGUIEvent rv now (STREAMING_START mid) h) = sources h"
  "type_m (last (messages (store (handleAGUIEvent rv now (STREAMING_START mid) h)))) = type_assistant"
  by (simp_all add: accumulating_def Let_def addMessage_def setStreaming_def)

lemma last_map_if:
  "ms \<noteq> [] \<Longrightarrow> id_m (last ms) = k \<Longrightarrow>
   last (map (\<lambda>msg. if id_m msg = k then f msg else msg) ms) = f (last ms)"
  by (simp add: last_map)

lemma handle_TEXT:
  assumes "accumulating h"
  shows "accumulating (handleAGUIEvent rv now (TEXT_MESSAGE_CONTENT c b) h)"
    and "currentMessageRef (handleAGUIEvent rv now (TEXT_MESSAGE_CONTENT c b) h) = currentMessageRef h @ c"
    and "sources (handleAGUIEvent rv now (TEXT_MESSAGE_CONTENT c b) h) = sources h"
    and "type_m (last (messages (store (handleAGUIEvent rv now (TEXT_MESSAGE_CONTENT c b) h)))) =
         type_m (last (messages (store h)))"
  using assms
  by (simp_all add: accumulating_def Let_def messages_updateMessage last_map_if spread_def noUpdates_def)

lemma handle_END_last:
  assumes "messages (store h) \<noteq> []"
  shows "content (last (messages (store (handleAGUIEvent rv now STREAMING_END h)))) =
         content (last (messages (store h)))"
    and "type_m (last (messages (store (handleAGUIEvent rv now STREAMING_END h)))) =
         type_m (last (messages (store h)))"
  using assms
  by (simp_all add: Let_def messages_updateMessage setStreaming_def last_map spread_def noUpdates_def)

lemma parse_garbage: "parse data = None \<Longrightarrow> parseAGUIEvent parse data = None"
  by (simp add: parseAGUIEvent_def)

lemma step_garbage:
  "JSON_parse env data = None \<Longrightarrow> step rv env h (TransportMessage i data now) = h"
  by (simp add: onmessage_def parse_garbage)

lemma live_sources: "sources h' = sources h \<Longrightarrow> live h' i = live h i"
  by (simp add: live_def)

subsection \<open>A malformed frame\<close>

text \<open>
  Claim C8. On a connection that is not closed, let the start frame, a frame that
  \<^verbatim>\<open>JSON.parse\<close> rejects, the text frame for \<^verbatim>\<open>hi\<close> and the end frame arrive. The
  garbage frame leaves the state as it is, the connection is still open after it, and at
  the end the last message of the log is the assistant's message with the content \<^verbatim>\<open>hi\<close>.
\<close>

theorem malformed_frame_is_skipped:
  assumes "live h i"
    and "JSON_parse env garbage = None"
    and "parseAGUIEvent (JSON_parse env) f1 = Some (JSObject (STREAMING_START messageId))"
    and "parseAGUIEvent (JSON_parse env) f2 = Some (JSObject (TEXT_MESSAGE_CONTENT ''hi'' isComplete))"
    and "parseAGUIEvent (JSON_parse env) f3 = Some (JSObject STREAMING_END)"
  shows "step rv env (step rv env h (TransportMessage i f1 t1)) (TransportMessage i garbage t2) =
           step rv env h (TransportMessage i f1 t1) \<and>
         live (run rv env h [TransportMessage i f1 t1, TransportMessage i garbage t2]) i \<and>
         content (last (messages (store (run rv env h
           [TransportMessage i f1 t1, TransportMessage i garbage t2,
            TransportMessage i f2 t3, TransportMessage i f3 t4])))) = ''hi'' \<and>
         type_m (last (messages (store (run rv env h
           [TransportMessage i f1 t1, TransportMessage i garbage t2,
            TransportMessage i f2 t3, TransportMessage i f3 t4])))) = type_assistant"
proof -
  let ?h1 = "handleAGUIEvent rv t1 (STREAMING_START messageId) h"
  let ?h2 = "handleAGUIEvent rv t3 (TEXT_MESSAGE_CONTENT ''hi'' isComplete) ?h1"
  let ?h3 = "handleAGUIEvent rv t4 STREAMING_END ?h2"
  have s1: "step rv env h (TransportMessage i f1 t1) = ?h1"
    by (rule step_message[OF assms(1,3)])
  have l1: "live ?h1 i"
    using assms(1) live_sources[OF handle_START(3), of rv t1 messageId h i] by simp
  have sg: "step rv env ?h1 (TransportMessage i garbage t2) = ?h1"
    by (rule step_garbage[OF assms(2)])
  have s2: "step rv env ?h1 (TransportMessage i f2 t3) = ?h2"
    by (rule step_message[OF l1 assms(4)])
  have a1: "accumulating ?h1" by (rule handle_START(1))
  have l2: "live ?h2 i"
    using l1 live_sources[OF handle_TEXT(3)[OF a1], of rv t3 "''hi''" isComplete i] by simp
  have s3: "step rv env ?h2 (TransportMessage i f3 t4) = ?h3"
    by (rule step_message[OF l2 assms(5)])
  have a2: "accumulating ?h2" by (rule handle_TEXT(1)[OF a1])
  have c2: "content (last (messages (store ?h2))) = ''hi''"
    using a2 handle_TEXT(2)[OF a1, of rv t3 "''hi''" isComplete] handle_START(2)[of rv t1 messageId h]
    by (simp add: accumulating_def)
  have t2: "type_m (last (messages (store ?h2))) = type_assistant"
    using handle_TEXT(4)[OF a1, of rv t3 "''hi''" isComplete] handle_START(4)[of rv t1 messageId h]
    by simp
  have n2: "messages (store ?h2) \<noteq> []" using a2 by (simp add: accumulating_def)
  have r2: "run rv env h [TransportMessage i f1 t1, TransportMessage i garbage t2] = ?h1"
    by (simp only: run_def foldl.simps s1 sg)
  have r4: "run rv env h [TransportMessage i f1 t1, TransportMessage i garbage t2,
            TransportMessage i f2 t3, TransportMessage i f3 t4] = ?h3"
    by (simp only: run_def foldl.simps s1 sg s2 s3)
  show ?thesis
    unfolding r2 r4 s1 sg
    using l1 c2 t2 handle_END_last[OF n2, of rv t4] by simp
qed

theorem malformed_frame_is_skipped_witness:
  "live (run V2 exampleEnv initialHook [SendMessage ''hi'' 0, TransportOpen 0]) 0 \<and>
   JSON_parse exampleEnv frameGarbage = None \<and>
   parseAGUIEvent (JSON_parse exampleEnv) frameStart = Some (JSObject (STREAMING_START (Some ''msg-1''))) \<and>
   parseAGUIEvent (JSON_parse exampleEnv) frameHi = Some (JSObject (TEXT_MESSAGE_CONTENT ''hi'' (Some True))) \<and>
   parseAGUIEvent (JSON_parse exampleEnv) frameEnd = Some (JSObject STREAMING_END) \<and>
   content (last (messages (store (run V2 exampleEnv
      (run V2 exampleEnv initialHook [SendMessage ''hi'' 0, TransportOpen 0])
      [TransportMessage 0 frameStart 1, TransportMessage 0 frameGarbage 2,
       TransportMessage 0 frameHi 3, TransportMessage 0 frameEnd 4])))) = ''hi''"
proof -
  let ?h = "run V2 exampleEnv initialHook [SendMessage ''hi'' 0, TransportOpen 0]"
  have a: "live ?h 0" by code_simp
  have b: "JSON_parse exampleEnv frameGarbage = None" by code_simp
  have c: "parseAGUIEvent (JSON_parse exampleEnv) frameStart = Some (JSObject (STREAMING_START (Some ''msg-1'')))"
    by code_simp
  have d: "parseAGUIEvent (JSON_parse exampleEnv) frameHi = Some (JSObject (TEXT_MESSAGE_CONTENT ''hi'' (Some True)))"
    by code_simp
  have e: "parseAGUIEvent (JSON_parse exampleEnv) frameEnd = Some (JSObject STREAMING_END)"
    by code_simp
  show ?thesis
    using a b c d e malformed_frame_is_skipped[OF a b c d e, of V2 1 2 3 4] by blast
qed

subsection \<open>Tokens and their reassembly\<close>

lemma handleAll_Cons: "handleAll rv now h (e # es) = handleAll rv now (handleAGUIEvent rv now e h) es"
  by (simp add: handleAll_def)

lemma handleAll_append:
  "handleAll rv now h (es @ es') = handleAll rv now (handleAll rv now h es) es'"
  by (simp add: handleAll_def)

lemma handleAll_texts:
  "accumulating h \<Longrightarrow>
   accumulating (handleAll rv now h (map textEvent chunks)) \<and>
   currentMessageRef (handleAll rv now h (map textEvent chunks)) =
     currentMessageRef h @ concat (map fst chunks)"
proof (induction chunks arbitrary: h)
  case Nil
  then show ?case by (simp add: handleAll_def)
next
  case (Cons chunk chunks)
  let ?h' = "handleAGUIEvent rv now (TEXT_MESSAGE_CONTENT (fst chunk) (snd chunk)) h"
  have a: "accumulating ?h'" by (rule handle_TEXT(1)[OF Cons.prems])
  have r: "currentMessageRef ?h' = currentMessageRef h @ fst chunk"
    by (rule handle_TEXT(2)[OF Cons.prems])
  from Cons.IH[OF a] r show ?case
    by (simp add: handleAll_Cons textEvent_def)
qed

lemma handleAll_stream:
  "content (last (messages (store (handleAll rv now h
      (STREAMING_START mid # map textEvent chunks @ [STREAMING_END]))))) = concat (map fst chunks)"
proof -
  let ?h1 = "handleAGUIEvent rv now (STREAMING_START mid) h"
  let ?h2 = "handleAll rv now ?h1 (map textEvent chunks)"
  have a1: "accumulating ?h1" by (rule handle_START(1))
  from handleAll_texts[OF a1, of rv now chunks] handle_START(2)[of rv now mid h]
  have a2: "accumulating ?h2" and r2: "currentMessageRef ?h2 = concat (map fst chunks)"
    by simp_all
  from a2 have n2: "messages (store ?h2) \<noteq> []"
    and c2: "content (last (messages (store ?h2))) = currentMessageRef ?h2"
    by (simp_all add: accumulating_def)
  have "handleAll rv now h (STREAMING_START mid # map textEvent chunks @ [STREAMING_END]) =
        handleAGUIEvent rv now STREAMING_END ?h2"
    by (simp add: handleAll_Cons handleAll_append) (simp add: handleAll_def)
  then show ?thesis
    using handle_END_last(1)[OF n2, of rv now] c2 r2 by simp
qed

lemma streamWriter_no_faults:
  "written (streamWriter now msg \<lparr>written = [], faults = []\<rparr>) =
     StreamingStartEvent (''msg-'' @ Sprintf_d now) #
       tokenEvents (Fields (generateResponse msg)) @ [StreamingEndEvent]"
proof -
  let ?ws = "Fields (generateResponse msg)"
  let ?s = "StreamingStartEvent (''msg-'' @ Sprintf_d now)"
  let ?w1 = "\<lparr>written = [?s], faults = []\<rparr>"
  have start: "writeEvent \<lparr>written = [], faults = []\<rparr> ?s = (False, ?w1)"
    by (simp add: writeEvent_def)
  have loop: "wordLoop (length ?ws) 0 ?ws ?w1 = \<lparr>written = ?s # tokenEvents ?ws, faults = []\<rparr>"
    using wordLoop_all_written[of ?w1 ?ws "[]" "length ?ws" 0] by (simp add: tokenEvents_def)
  have "streamWriter now msg \<lparr>written = [], faults = []\<rparr> =
        snd (writeEvent (wordLoop (length ?ws) 0 ?ws ?w1) StreamingEndEvent)"
    by (simp only: streamWriter_unfold start fst_conv snd_conv if_False)
  also have "\<dots> = snd (writeEvent \<lparr>written = ?s # tokenEvents ?ws, faults = []\<rparr> StreamingEndEvent)"
    by (simp only: loop)
  finally show ?thesis by (simp add: writeEvent_def)
qed

lemma tokenEvents_nth:
  "n < length ws \<Longrightarrow>
   tokenEvents ws ! n = TextMessageEvent (if Suc n < length ws then ws ! n @ '' '' else ws ! n) (Suc n = length ws)"
  by (simp add: tokenEvents_def tokenEvent_def nth_enumerate_eq)

lemma length_tokenEvents [simp]: "length (tokenEvents ws) = length ws"
  by (simp add: tokenEvents_def)

lemma texts_unwords:
  "concat (map textOf (map (\<lambda>(j, word). tokenEvent (i + length ws) j word) (enumerate i ws))) = unwords ws"
proof (induction ws arbitrary: i rule: unwords.induct)
  case 1
  then show ?case by simp
next
  case (2 word)
  then show ?case by (simp add: tokenEvent_def textOf_def)
next
  case (3 word v rest)
  from "3.IH"[of "Suc i"] show ?case
    by (simp add: tokenEvent_def textOf_def)
qed

lemma tokenEvents_unwords: "concat (map textOf (tokenEvents ws)) = unwords ws"
  using texts_unwords[of 0 ws] by (simp add: tokenEvents_def)

lemma writeEvent_cases:
  "(fst (writeEvent w e) \<longrightarrow> written (snd (writeEvent w e)) = written w) \<and>
   (\<not> fst (writeEvent w e) \<longrightarrow> written (snd (writeEvent w e)) = written w @ [e])"
  by (simp add: writeEvent_def split: list.splits)

lemma wordLoop_prefix:
  "\<exists>k \<le> length ws.
     written (wordLoop n i ws w) =
       written w @ take k (map (\<lambda>(j, word). tokenEvent n j word) (enumerate i ws))"
proof (induction ws arbitrary: i w)
  case Nil
  then show ?case by simp
next
  case (Cons word rest)
  let ?e = "tokenEvent n i word"
  let ?w' = "snd (writeEvent w ?e)"
  show ?case
  proof (cases "fst (writeEvent w ?e)")
    case True
    then have "written (wordLoop n i (word # rest) w) = written w"
      unfolding wordLoop_Cons using writeEvent_cases[of w ?e] by simp
    then show ?thesis by (intro exI[of _ 0]) simp
  next
    case False
    then have w': "written ?w' = written w @ [?e]"
      using writeEvent_cases[of w ?e] by simp
    from Cons.IH[of "Suc i" ?w'] obtain k where k: "k \<le> length rest"
      and eq: "written (wordLoop n (Suc i) rest ?w') =
        written ?w' @ take k (map (\<lambda>(j, word). tokenEvent n j word) (enumerate (Suc i) rest))"
      by blast
    have "written (wordLoop n i (word # rest) w) =
        written w @ take (Suc k) (map (\<lambda>(j, word). tokenEvent n j word) (enumerate i (word # rest)))"
      unfolding wordLoop_Cons using False eq w' by simp
    with k show ?thesis by (intro exI[of _ "Suc k"]) simp
  qed
qed

lemma streamWriter_shape:
  "written (streamWriter now msg \<lparr>written = [], faults = fs\<rparr>) = [] \<or>
   (\<exists>k \<le> length (Fields (generateResponse msg)).
      written (streamWriter now msg \<lparr>written = [], faults = fs\<rparr>) =
        StreamingStartEvent (''msg-'' @ Sprintf_d now) # take k (tokenEvents (Fields (generateResponse msg))) \<or>
      written (streamWriter now msg \<lparr>written = [], faults = fs\<rparr>) =
        StreamingStartEvent (''msg-'' @ Sprintf_d now) # take k (tokenEvents (Fields (generateResponse msg))) @
          [StreamingEndEvent])"
proof -
  let ?ws = "Fields (generateResponse msg)"
  let ?s = "StreamingStartEvent (''msg-'' @ Sprintf_d now)"
  let ?w0 = "\<lparr>written = [], faults = fs\<rparr>"
  let ?w1 = "snd (writeEvent ?w0 ?s)"
  let ?w2 = "wordLoop (length ?ws) 0 ?ws ?w1"
  show ?thesis
  proof (cases "fst (writeEvent ?w0 ?s)")
    case True
    then have "written (streamWriter now msg ?w0) = []"
      unfolding streamWriter_unfold using writeEvent_cases[of ?w0 ?s] by simp
    then show ?thesis by simp
  next
    case False
    then have w1: "written ?w1 = [?s]" using writeEvent_cases[of ?w0 ?s] by simp
    from wordLoop_prefix[of ?ws "length ?ws" 0 ?w1] obtain k where k: "k \<le> length ?ws"
      and w2: "written ?w2 = ?s # take k (tokenEvents ?ws)"
      unfolding w1 by (auto simp: tokenEvents_def)
    have sw: "streamWriter now msg ?w0 = snd (writeEvent ?w2 StreamingEndEvent)"
      unfolding streamWriter_unfold using False by simp
    have "written (streamWriter now msg ?w0) = ?s # take k (tokenEvents ?ws) \<or>
          written (streamWriter now msg ?w0) = ?s # take k (tokenEvents ?ws) @ [StreamingEndEvent]"
      unfolding sw using writeEvent_cases[of ?w2 StreamingEndEvent] w2
      by (cases "fst (writeEvent ?w2 StreamingEndEvent)") simp_all
    with k show ?thesis by blast
  qed
qed

lemma handleAll_open:
  "content (last (messages (store (handleAll rv now h
      (STREAMING_START mid # map textEvent chunks))))) = concat (map fst chunks)"
proof -
  let ?h1 = "handleAGUIEvent rv now (STREAMING_START mid) h"
  let ?h2 = "handleAll rv now ?h1 (map textEvent chunks)"
  have a1: "accumulating ?h1" by (rule handle_START(1))
  from handleAll_texts[OF a1, of rv now chunks] handle_START(2)[of rv now mid h]
  have "accumulating ?h2" and "currentMessageRef ?h2 = concat (map fst chunks)"
    by simp_all
  then show ?thesis by (simp add: handleAll_Cons accumulating_def)
qed

lemma received_take_tokenEvents:
  "map received (take k (tokenEvents ws)) = map textEvent (map chunkOf (take k (tokenEvents ws)))"
  by (simp add: tokenEvents_def tokenEvent_def textEvent_def chunkOf_def split_def take_map)

lemma fst_chunkOf: "map fst (map chunkOf es) = map textOf es"
  by (simp add: chunkOf_def textOf_def split: Event.splits)

lemma consumer_of_written:
  assumes "written (streamWriter now msg \<lparr>written = [], faults = fs\<rparr>) \<noteq> []"
  shows "content (last (messages (store (handleAll rv t h
      (map received (written (streamWriter now msg \<lparr>written = [], faults = fs\<rparr>))))))) =
     concat (map textOf (written (streamWriter now msg \<lparr>written = [], faults = fs\<rparr>)))"
proof -
  let ?ws = "Fields (generateResponse msg)"
  let ?s = "StreamingStartEvent (''msg-'' @ Sprintf_d now)"
  let ?out = "written (streamWriter now msg \<lparr>written = [], faults = fs\<rparr>)"
  from streamWriter_shape[of now msg fs] assms obtain k where
    "?out = ?s # take k (tokenEvents ?ws) \<or> ?out = ?s # take k (tokenEvents ?ws) @ [StreamingEndEvent]"
    by blast
  then show ?thesis
  proof
    assume o: "?out = ?s # take k (tokenEvents ?ws)"
    show ?thesis
      unfolding o
      by (simp add: received_take_tokenEvents handleAll_open fst_chunkOf textOf_def del: map_map)
  next
    assume o: "?out = ?s # take k (tokenEvents ?ws) @ [StreamingEndEvent]"
    show ?thesis
      unfolding o
      by (simp add: received_take_tokenEvents handleAll_stream fst_chunkOf textOf_def del: map_map)
  qed
qed

text \<open>
  Claim C5. On a connection where no write fails, the producer writes the start event, one
  text event per token of the response and the end event; the text event of a token is
  the token followed by a space and not complete, except for the last, which is the bare
  token and complete. Whatever writes fail, the text events written are the events of the
  first tokens, in order. The consumer, whatever its state and whatever the chunks are,
  ends a stream of text events with a last message whose content is the concatenation of
  the chunks in the order of arrival; so for every stream of the producer that has begun,
  this content is the concatenation of the texts written, and where no write fails it is
  the tokens joined by single spaces.
\<close>

theorem tokens_reassemble:
  "written (streamWriter now msg \<lparr>written = [], faults = []\<rparr>) =
     StreamingStartEvent (''msg-'' @ Sprintf_d now) #
       tokenEvents (Fields (generateResponse msg)) @ [StreamingEndEvent] \<and>
   length (tokenEvents ws) = length ws \<and>
   (\<forall>n < length ws.
      tokenEvents ws ! n =
        TextMessageEvent (if Suc n < length ws then ws ! n @ '' '' else ws ! n) (Suc n = length ws)) \<and>
   (written (streamWriter now msg \<lparr>written = [], faults = fs\<rparr>) = [] \<or>
    (\<exists>k \<le> length (Fields (generateResponse msg)).
       written (streamWriter now msg \<lparr>written = [], faults = fs\<rparr>) =
         StreamingStartEvent (''msg-'' @ Sprintf_d now) #
           take k (tokenEvents (Fields (generateResponse msg))) \<or>
       written (streamWriter now msg \<lparr>written = [], faults = fs\<rparr>) =
         StreamingStartEvent (''msg-'' @ Sprintf_d now) #
           take k (tokenEvents (Fields (generateResponse msg))) @ [StreamingEndEvent])) \<and>
   content (last (messages (store (handleAll rv t h
      (STREAMING_START mid # map textEvent chunks @ [STREAMING_END]))))) = concat (map fst chunks) \<and>
   (written (streamWriter now msg \<lparr>written = [], faults = fs\<rparr>) \<noteq> [] \<longrightarrow>
      content (last (messages (store (handleAll rv t h
        (map received (written (streamWriter now msg \<lparr>written = [], faults = fs\<rparr>))))))) =
      concat (map textOf (written (streamWriter now msg \<lparr>written = [], faults = fs\<rparr>)))) \<and>
   content (last (messages (store (handleAll rv t h
      (map received (written (streamWriter now msg \<lparr>written = [], faults = []\<rparr>))))))) =
     unwords (Fields (generateResponse msg)) \<and>
   concat (map textOf (tokenEvents ws)) = unwords ws"
proof -
  let ?ws = "Fields (generateResponse msg)"
  have p1: "written (streamWriter now msg \<lparr>written = [], faults = []\<rparr>) =
     StreamingStartEvent (''msg-'' @ Sprintf_d now) # tokenEvents ?ws @ [StreamingEndEvent]"
    by (rule streamWriter_no_faults)
  have p3: "\<forall>n < length ws.
      tokenEvents ws ! n =
        TextMessageEvent (if Suc n < length ws then ws ! n @ '' '' else ws ! n) (Suc n = length ws)"
    by (simp add: tokenEvents_nth)
  note p4 = streamWriter_shape[of now msg fs]
  have p5: "content (last (messages (store (handleAll rv t h
      (STREAMING_START mid # map textEvent chunks @ [STREAMING_END]))))) = concat (map fst chunks)"
    by (rule handleAll_stream)
  have p6: "written (streamWriter now msg \<lparr>written = [], faults = fs\<rparr>) \<noteq> [] \<longrightarrow>
      content (last (messages (store (handleAll rv t h
        (map received (written (streamWriter now msg \<lparr>written = [], faults = fs\<rparr>))))))) =
      concat (map textOf (written (streamWriter now msg \<lparr>written = [], faults = fs\<rparr>)))"
    using consumer_of_written[of now msg fs rv t h] by blast
  have n: "written (streamWriter now msg \<lparr>written = [], faults = []\<rparr>) \<noteq> []"
    unfolding p1 by simp
  have p7: "content (last (messages (store (handleAll rv t h
      (map received (written (streamWriter now msg \<lparr>written = [], faults = []\<rparr>))))))) =
     unwords ?ws"
    unfolding consumer_of_written[OF n]
    unfolding p1 by (simp add: tokenEvents_unwords textOf_def)
  have p8: "concat (map textOf (tokenEvents ws)) = unwords ws"
    by (rule tokenEvents_unwords)
  have p2: "length (tokenEvents ws) = length ws" by simp
  from p1 p2 p3 p4 p5 p6 p7 p8 show ?thesis by blast
qed

theorem tokens_reassemble_witness:
  "0 < length [''hiking'', ''trails''] \<and>
   tokenEvents [''hiking'', ''trails''] ! 0 = TextMessageEvent ''hiking '' False \<and>
   1 < length [''hiking'', ''trails''] \<and>
   tokenEvents [''hiking'', ''trails''] ! 1 = TextMessageEvent ''trails'' True \<and>
   concat (map textOf (tokenEvents [''hiking'', ''trails''])) = ''hiking trails'' \<and>
   written (streamWriter 1 ''hiking'' \<lparr>written = [], faults = [False, False, True]\<rparr>) \<noteq> [] \<and>
   content (last (messages (store (handleAll V2 0 initialHook
     (map received (written (streamWriter 1 ''hiking'' \<lparr>written = [], faults = [False, False, True]\<rparr>))))))) =
   concat (map textOf (written (streamWriter 1 ''hiking'' \<lparr>written = [], faults = [False, False, True]\<rparr>)))"
proof -
  have n: "written (streamWriter 1 ''hiking'' \<lparr>written = [], faults = [False, False, True]\<rparr>) \<noteq> []"
    by code_simp
  have a: "(0::nat) < length [''hiking'', ''trails'']" and b: "(1::nat) < length [''hiking'', ''trails'']"
    by simp_all
  note t = tokens_reassemble[of 1 "''hiking''" "[''hiking'', ''trails'']" "[False, False, True]"
      V2 0 initialHook None "[]"]
  from t a have c: "tokenEvents [''hiking'', ''trails''] ! 0 = TextMessageEvent ''hiking '' False"
    by simp
  from t b have d: "tokenEvents [''hiking'', ''trails''] ! 1 = TextMessageEvent ''trails'' True"
    by simp
  from t have e: "concat (map textOf (tokenEvents [''hiking'', ''trails''])) = ''hiking trails''"
    by simp
  from t n have f: "content (last (messages (store (handleAll V2 0 initialHook
     (map received (written (streamWriter 1 ''hiking'' \<lparr>written = [], faults = [False, False, True]\<rparr>))))))) =
   concat (map textOf (written (streamWriter 1 ''hiking'' \<lparr>written = [], faults = [False, False, True]\<rparr>)))"
    by blast
  from a b c d e n f show ?thesis by blast
qed

text \<open>
  The scenario of the query \<^verbatim>\<open>hiking\<close>: the consumer ends with the whole response as the
  content of the assistant's message.
\<close>

lemma hiking_scenario:
  "content (last (messages (store (handleAll V2 5 initialHook
      (map received (written (streamWriter 1 ''hiking'' \<lparr>written = [], faults = []\<rparr>))))))) =
   generateResponse ''hiking''"
  by code_simp

section \<open>The query text on its way to the producer\<close>

lemma of_char_less: "(of_char c :: nat) < 256"
proof -
  have "(of_char c :: nat) mod 256 = of_char c" by simp
  then show ?thesis by (metis mod_less_divisor zero_less_numeral)
qed

lemma of_char_div16: "(of_char c :: nat) div 16 < 16"
proof -
  have "(of_char c :: nat) < 16 * 16" using of_char_less[of c] by simp
  then show ?thesis by (rule less_mult_imp_div_less)
qed

lemma upperhex_ishex: "d < 16 \<Longrightarrow> ishex (upperhex d)"
  by (auto simp: ishex_def upperhex_def Let_def)

lemma unhex_upperhex: "d < 16 \<Longrightarrow> unhex (upperhex d) = d"
  by (auto simp: unhex_def upperhex_def Let_def)

lemma unhexByte_upperhex:
  "unhexByte (upperhex (of_char c div 16)) (upperhex (of_char c mod 16)) = c"
proof -
  have d: "(of_char c :: nat) div 16 < 16" by (rule of_char_div16)
  have m: "(of_char c :: nat) mod 16 < 16" by simp
  show ?thesis
    by (simp add: unhexByte_def unhex_upperhex[OF d] unhex_upperhex[OF m])
qed

lemma isAlnum_plain: "isAlnum c \<Longrightarrow> c \<noteq> CHR ''%'' \<and> c \<noteq> CHR ''+''"
  by (auto simp: isAlnum_def Let_def)

lemma queryArgDecode_percentEncode:
  "queryArgDecode (percentEncode c @ rest) = c # queryArgDecode rest"
proof -
  have d: "(of_char c :: nat) div 16 < 16" by (rule of_char_div16)
  have m: "(of_char c :: nat) mod 16 < 16" by simp
  show ?thesis
    by (simp add: percentEncode_def Let_def upperhex_ishex[OF d] upperhex_ishex[OF m] unhexByte_upperhex)
qed

lemma queryArgDecode_formByte: "queryArgDecode (formByte c @ rest) = c # queryArgDecode rest"
proof (cases "isAlnum c \<or> c \<in> set ''*-._''")
  case True
  then have "c \<noteq> CHR ''%'' \<and> c \<noteq> CHR ''+''" using isAlnum_plain[of c] by auto
  with True show ?thesis by (simp add: formByte_def)
next
  case False
  then show ?thesis
    by (cases "c = CHR '' ''") (simp_all add: formByte_def queryArgDecode_percentEncode)
qed

lemma queryArgDecode_formSerialize: "queryArgDecode (formSerialize s) = s"
  by (induction s) (simp_all add: formSerialize_def queryArgDecode_formByte)

lemma QueryUnescape_percentEncode:
  "QueryUnescape (percentEncode c @ rest) =
     (case QueryUnescape rest of Inl e \<Rightarrow> Inl e | Inr t \<Rightarrow> Inr (c # t))"
proof -
  have d: "(of_char c :: nat) div 16 < 16" by (rule of_char_div16)
  have m: "(of_char c :: nat) mod 16 < 16" by simp
  show ?thesis
    by (simp add: percentEncode_def Let_def upperhex_ishex[OF d] upperhex_ishex[OF m] unhexByte_upperhex
        split: sum.splits)
qed

lemma uriUnreserved_plain: "uriUnreserved c \<Longrightarrow> c \<noteq> CHR ''%'' \<and> c \<noteq> CHR ''+''"
  using isAlnum_plain[of c] by (auto simp: uriUnreserved_def)

lemma QueryUnescape_encodeURIComponent: "QueryUnescape (encodeURIComponent s) = Inr s"
proof (induction s)
  case Nil
  then show ?case by (simp add: encodeURIComponent_def)
next
  case (Cons c s)
  have e: "encodeURIComponent (c # s) = (if uriUnreserved c then [c] else percentEncode c) @ encodeURIComponent s"
    by (simp add: encodeURIComponent_def)
  show ?case
  proof (cases "uriUnreserved c")
    case True
    with uriUnreserved_plain[OF True] Cons.IH show ?thesis
      unfolding e by simp
  next
    case False
    with Cons.IH show ?thesis
      unfolding e by (simp add: QueryUnescape_percentEncode)
  qed
qed

text \<open>
  The first revision escapes the text before it sets the parameter, and the two decodings
  of the producer give the text back.
\<close>

lemma first_revision_round_trip:
  "decodeMessage (queryArgDecode (formSerialize (encodeURIComponent text))) = text"
  by (simp add: queryArgDecode_formSerialize decodeMessage_def QueryUnescape_encodeURIComponent)

lemma first_revision_serverText:
  assumes "canConnect env" and "\<not> isStreaming (store h)"
  shows "serverText (sources (sendMessage V1 env text now h) ! length (sources h)) = text"
proof -
  have l: "length (case eventSourceRef h of None \<Rightarrow> sources h | Some i \<Rightarrow> es_close i (sources h)) = length (sources h)"
    by (simp split: option.splits)
  show ?thesis
    unfolding sendMessage_opens(1)[OF assms(2,1)] serverText_def
    using l by (simp add: nth_append first_revision_round_trip)
qed

text \<open>
  Claim C9 in the second revision, which sets the parameter to the text as it is: the
  transport hands the text to the producer unchanged, and the producer's own
  \<^verbatim>\<open>url.QueryUnescape\<close> then decodes it once more. A plus sign of the text arrives as a
  space, and an escape sequence that the user typed arrives decoded.
\<close>

theorem second_revision_decodes_the_text_twice:
  "message_param (sources (sendMessage V2 exampleEnv ''1+1'' 0 initialHook) ! 0) = ''1+1'' \<and>
   formSerialize ''1+1'' = ''1%2B1'' \<and>
   queryArgDecode ''1%2B1'' = ''1+1'' \<and>
   serverText (sources (sendMessage V2 exampleEnv ''1+1'' 0 initialHook) ! 0) = ''1 1'' \<and>
   serverText (sources (sendMessage V2 exampleEnv ''%41'' 0 initialHook) ! 0) = ''A'' \<and>
   serverText (sources (sendMessage V1 exampleEnv ''1+1'' 0 initialHook) ! 0) = ''1+1''"
  by code_simp

end
